theory Spec2Isabelle
  imports Main
begin

section \<open>Data model\<close>

text \<open>
  Go's \<^verbatim>\<open>time.Time\<close> is modelled as the number of nanoseconds since the zero time
  \<^verbatim>\<open>time.Time{}\<close>, so \<^verbatim>\<open>t.IsZero()\<close> is \<open>t = 0\<close>, \<^verbatim>\<open>t.Equal(u)\<close> is \<open>t = u\<close>,
  \<^verbatim>\<open>t.Before(u)\<close> is \<open>t < u\<close> and \<^verbatim>\<open>t.Add(d)\<close> is \<open>t + d\<close>. A \<^verbatim>\<open>time.Duration\<close> is a
  number of nanoseconds. The datastore is assumed to hand back the instants it was given.
\<close>

type_synonym Time = int
type_synonym Duration = int

definition IsZero :: "Time \<Rightarrow> bool" where
  "IsZero t \<longleftrightarrow> t = 0"

definition Hour :: Duration where
  "Hour = 3600000000000"

text \<open>
  The struct declarations are not part of the sources at hand; the records list the fields
  the functions below read or set. \<open>Errors\<close> is a Go \<^verbatim>\<open>int\<close>, modelled as an unbounded
  integer: the theorems about it state the range in which no wrap-around occurs.
\<close>

record Feed =
  Url :: string
  Title :: string
  Link :: string
  Updated :: Time
  Checked :: Time
  NextUpdate :: Time
  LastViewed :: Time
  Date :: Time
  Average :: Duration
  Errors :: int
  Subscribed :: Time
  Hub :: string

text \<open>A story's \<open>Parent\<close> is the key of its feed, that is the feed's URL.\<close>

record Story =
  Id :: string
  Parent :: string
  Created :: Time
  Published :: Time
  Updated :: Time
  content :: string

text \<open>A story content's \<open>Parent\<close> is the key of its story: the feed URL and the story id.\<close>

record StoryContent =
  Id :: int
  Parent :: "string \<times> string"
  Compressed :: string
  Content :: string

datatype entity = EFeed Feed | EStory Story | EContent StoryContent

datatype key =
    FeedKey string
  | StoryKey string string
  | ContentKey "string \<times> string" int

datatype error =
    FeedNotFound string
  | GetMultiError
  | PutError key
  | PutMultiError
  | UrlParseError
  | CraigslistBlocked
  | BadURL
  | ReadError
  | FeedTooLarge nat
  | CouldNotFetch
  | BadResponseCode
  | ParseFeedError
  | MarshalError

section \<open>The datastore\<close>

record store =
  feedTbl :: "string \<rightharpoonup> Feed"
  storyTbl :: "string \<times> string \<rightharpoonup> Story"
  contentTbl :: "(string \<times> string) \<times> int \<rightharpoonup> StoryContent"

text \<open>
  What \<^verbatim>\<open>updateFeed\<close> takes from outside itself: the clock (one reading for each call of
  \<^verbatim>\<open>time.Now()\<close>, named after what the reading is used for), the two helpers
  \<^verbatim>\<open>scheduleNextUpdate\<close> and \<^verbatim>\<open>updateAverage\<close>, the gzip writer, and the failures of
  the datastore.
\<close>

record env =
  nowLastViewed :: Time
  nowUpdated :: Time
  nowDate :: Time
  nowWait :: Time
  next_due :: "Feed \<Rightarrow> Time"
  avg_est :: "Feed \<Rightarrow> Time \<Rightarrow> int \<Rightarrow> Duration"
  gz :: "string \<Rightarrow> string option"
  get_fails :: bool
  getMulti_fails :: bool
  put_fails :: "key \<Rightarrow> bool"

fun Key :: "entity \<Rightarrow> key" where
  "Key (EFeed f) = FeedKey (Url f)"
| "Key (EStory s) = StoryKey (Story.Parent s) (Story.Id s)"
| "Key (EContent sc) = ContentKey (StoryContent.Parent sc) (StoryContent.Id sc)"

fun store_put :: "entity \<Rightarrow> store \<Rightarrow> store" where
  "store_put (EFeed f) st = st\<lparr>feedTbl := (feedTbl st)(Url f \<mapsto> f)\<rparr>"
| "store_put (EStory s) st = st\<lparr>storyTbl := (storyTbl st)((Story.Parent s, Story.Id s) \<mapsto> s)\<rparr>"
| "store_put (EContent sc) st =
     st\<lparr>contentTbl := (contentTbl st)((StoryContent.Parent sc, StoryContent.Id sc) \<mapsto> sc)\<rparr>"

text \<open>
  \<^verbatim>\<open>gn.Get(&f)\<close> for \<^verbatim>\<open>f := Feed{Url: url}\<close>: \<open>None\<close> stands for any error, a missing
  entity included. The URL is the entity's key, so the feed read has the URL asked for.
\<close>

definition Get :: "bool \<Rightarrow> store \<Rightarrow> string \<Rightarrow> Feed option" where
  "Get fails st url =
     (if fails then None else map_option (\<lambda>f. f\<lparr>Url := url\<rparr>) (feedTbl st url))"

text \<open>\<^verbatim>\<open>gn.Put\<close>: the store after the call, and whether the call returned an error.\<close>

definition Put :: "env \<Rightarrow> entity \<Rightarrow> store \<Rightarrow> store \<times> bool" where
  "Put env e st = (if put_fails env (Key e) then (st, True) else (store_put e st, False))"

text \<open>
  \<^verbatim>\<open>gn.PutMulti\<close>: the entities are written in order; those whose write fails are left
  out, and the call returns an error when any write failed.
\<close>

fun PutMulti :: "env \<Rightarrow> entity list \<Rightarrow> store \<Rightarrow> store \<times> bool" where
  "PutMulti env [] st = (st, False)"
| "PutMulti env (e # es) st =
     (case Put env e st of (st1, failed1) \<Rightarrow>
        (case PutMulti env es st1 of (st2, failed2) \<Rightarrow> (st2, failed1 \<or> failed2)))"

section \<open>Reconciliation: \<^verbatim>\<open>updateFeed\<close>\<close>

text \<open>
  Modelled from the spec: \<^verbatim>\<open>scheduleNextUpdate\<close> is not in the sources. The spec makes it the
  scheduling policy that computes the feed's next-due time; the computation is the
  parameter \<open>next_due\<close>.
\<close>

definition scheduleNextUpdate :: "env \<Rightarrow> Feed \<Rightarrow> Feed" where
  "scheduleNextUpdate env f = f\<lparr>NextUpdate := next_due env f\<rparr>"

text \<open>
  Modelled from the spec: \<^verbatim>\<open>updateAverage\<close> is not in the sources. The spec makes it the
  recomputation of the average-update-interval estimate from the feed's previous content
  timestamp and the count of newly written stories; the computation is the parameter
  \<open>avg_est\<close>.
\<close>

definition updateAverage :: "env \<Rightarrow> Feed \<Rightarrow> Time \<Rightarrow> int \<Rightarrow> Feed" where
  "updateAverage env f previousUpdate updateCount =
     f\<lparr>Average := avg_est env f previousUpdate updateCount\<rparr>"

text \<open>
  Lines 676 to 685: the parsed feed takes the stored feed's bookkeeping fields and becomes
  the new \<open>f\<close>.
\<close>

definition carryOver :: "env \<Rightarrow> Feed \<Rightarrow> Feed \<Rightarrow> bool \<Rightarrow> Feed" where
  "carryOver env f feed updateLast =
     (let hasUpdated = \<not> IsZero (Feed.Updated feed);
          feed1 = (if \<not> hasUpdated then feed\<lparr>Feed.Updated := Feed.Updated f\<rparr> else feed);
          feed2 = feed1\<lparr>Date := Date f, Average := Average f, LastViewed := LastViewed f\<rparr>
      in if updateLast then feed2\<lparr>LastViewed := nowLastViewed env\<rparr> else feed2)"

text \<open>
  The body of the loop of lines 710 to 722 for one incoming story and the result of its
  lookup: the stories it appends to \<^verbatim>\<open>updateStories\<close>.
\<close>

definition diffStory :: "bool \<Rightarrow> Story \<Rightarrow> Story option \<Rightarrow> Story list" where
  "diffStory updateAll new prior =
     (case prior of
        None \<Rightarrow> [new]
      | Some s \<Rightarrow>
          if (\<not> IsZero (Story.Updated new) \<and> Story.Updated new \<noteq> Story.Updated s) \<or> updateAll
          then
            (let new1 = (if \<not> IsZero (Created s) then new\<lparr>Created := Created s\<rparr> else new);
                 new2 = (if \<not> IsZero (Published s) then new1\<lparr>Published := Published s\<rparr> else new1)
             in [new2])
          else [])"

text \<open>Lines 699 to 722: each incoming story is looked up under the feed's key \<open>fk\<close>.\<close>

definition updateStories :: "store \<Rightarrow> string \<Rightarrow> Story list \<Rightarrow> bool \<Rightarrow> Story list" where
  "updateStories st fk stories updateAll =
     concat (map (\<lambda>s. diffStory updateAll s (storyTbl st (fk, Story.Id s))) stories)"

text \<open>
  Lines 727 to 739. \<open>gz\<close> is \<^verbatim>\<open>gzip.NewWriterLevel\<close> followed by \<^verbatim>\<open>Write\<close> and
  \<^verbatim>\<open>Close\<close>; \<open>None\<close> is the writer's error, which leaves \<^verbatim>\<open>Compressed\<close> empty.
\<close>

definition mkContent :: "env \<Rightarrow> Story \<Rightarrow> StoryContent" where
  "mkContent env s =
     (let compressed = (case gz env (content s) of Some z \<Rightarrow> z | None \<Rightarrow> [])
      in \<lparr>StoryContent.Id = 1,
          StoryContent.Parent = (Story.Parent s, Story.Id s),
          Compressed = compressed,
          Content = (if length compressed = 0 then content s else [])\<rparr>)"

text \<open>
  The loop of lines 725 to 744: the store after it, the contents submitted, and whether a
  \<^verbatim>\<open>gn.Put\<close> failed (the function then returns at once).
\<close>

fun putContents :: "env \<Rightarrow> Story list \<Rightarrow> store \<Rightarrow> store \<times> entity list \<times> bool" where
  "putContents env [] st = (st, [], False)"
| "putContents env (s # ss) st =
     (let sc = EContent (mkContent env s) in
      case Put env sc st of
        (st1, True) \<Rightarrow> (st1, [sc], True)
      | (st1, False) \<Rightarrow>
          (case putContents env ss st1 of (st2, scs, failed) \<Rightarrow> (st2, sc # scs, failed)))"

text \<open>
  The outcome of a call: the store after it, the entities it submitted to the datastore
  in order, and the error it returned.
\<close>

record result =
  r_store :: store
  r_puts :: "entity list"
  r_err :: "error option"

text \<open>Lines 747 to 760, on the feed \<open>f\<close> with \<open>n\<close> stories queued.\<close>

definition finishFeed :: "env \<Rightarrow> Feed \<Rightarrow> nat \<Rightarrow> bool \<Rightarrow> bool \<Rightarrow> Feed" where
  "finishFeed env f n hasUpdated fromSub =
     (let f1 = (if n + 1 > 1
                then (let g = (updateAverage env f (Date f) (int n))\<lparr>Date := nowDate env\<rparr>
                      in if \<not> hasUpdated then g\<lparr>Feed.Updated := Date g\<rparr> else g)
                else f);
          f2 = scheduleNextUpdate env f1
      in if fromSub
         then (let wait = nowWait env + Hour * 6
               in if NextUpdate f2 < wait then f2\<lparr>NextUpdate := wait\<rparr> else f2)
         else f2)"

definition updateFeed ::
  "env \<Rightarrow> store \<Rightarrow> string \<Rightarrow> Feed \<Rightarrow> Story list \<Rightarrow> bool \<Rightarrow> bool \<Rightarrow> bool \<Rightarrow> result" where
  "updateFeed env st url feed stories updateAll fromSub updateLast =
     (case Get (get_fails env) st url of
        None \<Rightarrow> \<lparr>r_store = st, r_puts = [], r_err = Some (FeedNotFound url)\<rparr>
      | Some f0 \<Rightarrow>
          (let hasUpdated = \<not> IsZero (Feed.Updated feed);
               isFeedUpdated = (Feed.Updated f0 = Feed.Updated feed);
               f = carryOver env f0 feed updateLast
           in if hasUpdated \<and> isFeedUpdated \<and> \<not> updateAll \<and> \<not> fromSub
              then
                (let f' = scheduleNextUpdate env (f\<lparr>Feed.Updated := nowUpdated env\<rparr>)
                 in \<lparr>r_store = fst (Put env (EFeed f') st), r_puts = [EFeed f'], r_err = None\<rparr>)
              else if getMulti_fails env
              then \<lparr>r_store = st, r_puts = [], r_err = Some GetMultiError\<rparr>
              else
                (let us = updateStories st (Url f) stories updateAll in
                 case putContents env us st of
                   (st1, scs, True) \<Rightarrow>
                     \<lparr>r_store = st1, r_puts = scs, r_err = Some (PutError (Key (last scs)))\<rparr>
                 | (st1, scs, False) \<Rightarrow>
                     (let f' = finishFeed env f (length us) hasUpdated fromSub;
                          puts = EFeed f' # map EStory us
                      in case PutMulti env puts st1 of
                           (st2, failed) \<Rightarrow>
                             \<lparr>r_store = st2, r_puts = scs @ puts,
                              r_err = (if failed then Some PutMultiError else None)\<rparr>))))"

text \<open>The stories and the story contents among the entities a call submitted.\<close>

fun storyWrites :: "entity list \<Rightarrow> Story list" where
  "storyWrites [] = []"
| "storyWrites (EStory s # es) = s # storyWrites es"
| "storyWrites (e # es) = storyWrites es"

fun contentWrites :: "entity list \<Rightarrow> StoryContent list" where
  "contentWrites [] = []"
| "contentWrites (EContent sc # es) = sc # contentWrites es"
| "contentWrites (e # es) = contentWrites es"

fun feedWrites :: "entity list \<Rightarrow> Feed list" where
  "feedWrites [] = []"
| "feedWrites (EFeed f # es) = f # feedWrites es"
| "feedWrites (e # es) = feedWrites es"

text \<open>
  A sequence of reconciliations: each call with its own environment and arguments, on the
  store the previous one left.
\<close>

record call =
  c_env :: env
  c_url :: string
  c_feed :: Feed
  c_stories :: "Story list"
  c_updateAll :: bool
  c_fromSub :: bool
  c_updateLast :: bool

definition reconcile :: "call \<Rightarrow> store \<Rightarrow> result" where
  "reconcile c st =
     updateFeed (c_env c) st (c_url c) (c_feed c) (c_stories c)
       (c_updateAll c) (c_fromSub c) (c_updateLast c)"

definition reconcileAll :: "call list \<Rightarrow> store \<Rightarrow> store" where
  "reconcileAll calls = fold (\<lambda>c st. r_store (reconcile c st)) calls"

section \<open>Fetching: \<^verbatim>\<open>fetchFeed\<close>\<close>

text \<open>
  \<^verbatim>\<open>net/url\<close>, the HTTP client, \<^verbatim>\<open>Autodiscover\<close> and \<^verbatim>\<open>ParseFeed\<close> are outside the
  sources at hand and are parameters. A response carries the bytes its body delivers and
  whether the body then ends with a read error instead of the end of the stream.
\<close>

record URL =
  Scheme :: string
  Host :: string
  Path :: string
  Rest :: string

record response =
  StatusCode :: nat
  ContentType :: string
  Body :: string
  read_fails :: bool

record fetch_env =
  url_Parse :: "string \<Rightarrow> URL option"
  url_String :: "URL \<Rightarrow> string"
  http_Get :: "string \<Rightarrow> response option"
  Autodiscover :: "string \<Rightarrow> string option"
  ParseFeed :: "string \<Rightarrow> string \<Rightarrow> string \<Rightarrow> string \<Rightarrow> error + Feed \<times> Story list"

definition clURL :: string where
  "clURL = ''craigslist.org''"

definition sz :: nat where
  "sz = 2 ^ 21"

text \<open>\<^verbatim>\<open>strings.HasSuffix\<close>.\<close>

definition HasSuffix :: "string \<Rightarrow> string \<Rightarrow> bool" where
  "HasSuffix s suffix \<longleftrightarrow>
     length suffix \<le> length s \<and> drop (length s - length suffix) s = suffix"

text \<open>
  Lines 596 to 615: the parsed URL and the two URLs the rest of the function works with,
  or the error returned.
\<close>

definition fetchTarget :: "fetch_env \<Rightarrow> string \<Rightarrow> string \<Rightarrow> error + URL \<times> string \<times> string" where
  "fetchTarget fe origUrl fetchUrl =
     (case url_Parse fe fetchUrl of
        None \<Rightarrow> Inl UrlParseError
      | Some u0 \<Rightarrow>
          (let u1 = (if Host u0 = [] then u0\<lparr>Host := Path u0, Path := []\<rparr> else u0)
           in if HasSuffix (Host u1) clURL \<or> Host u1 = clURL then Inl CraigslistBlocked
              else if Scheme u1 = []
              then (let u2 = u1\<lparr>Scheme := ''http''\<rparr>; origUrl' = url_String fe u2
                    in if origUrl' = [] then Inl BadURL else Inr (u2, origUrl', origUrl'))
              else Inr (u1, origUrl, fetchUrl)))"

text \<open>
  Lines 623 to 632: \<^verbatim>\<open>ioutil.ReadAll\<close> through an \<^verbatim>\<open>io.LimitedReader\<close> of \<open>n\<close> bytes. The
  result is the bytes read and what is left of the limit. Once the limit is used up the
  reader reports the end of the stream without reading on.
\<close>

definition readLimited :: "nat \<Rightarrow> response \<Rightarrow> error + string \<times> nat" where
  "readLimited n resp =
     (if n \<le> length (Body resp) then Inr (take n (Body resp), 0)
      else if read_fails resp then Inl ReadError
      else Inr (Body resp, n - length (Body resp)))"

text \<open>Lines 634 to 641: the discovered link, completed from the URL fetched.\<close>

definition resolveAuto :: "fetch_env \<Rightarrow> URL \<Rightarrow> string \<Rightarrow> string" where
  "resolveAuto fe u autoUrl =
     (case url_Parse fe autoUrl of
        None \<Rightarrow> autoUrl
      | Some autoU \<Rightarrow>
          (let a1 = (if Scheme autoU = [] then autoU\<lparr>Scheme := Scheme u\<rparr> else autoU);
               a2 = (if Host a1 = [] then a1\<lparr>Host := Host u\<rparr> else a1)
           in url_String fe a2))"

text \<open>
  \<^verbatim>\<open>fetchFeed\<close> calls itself on the discovered link; \<open>None\<close> is a call that does not
  return.
\<close>

partial_function (option) fetchFeed ::
  "fetch_env \<Rightarrow> string \<Rightarrow> string \<Rightarrow> (error + Feed \<times> Story list) option" where
  "fetchFeed fe origUrl fetchUrl =
     (case fetchTarget fe origUrl fetchUrl of
        Inl e \<Rightarrow> Some (Inl e)
      | Inr (u, origUrl', fetchUrl') \<Rightarrow>
          (case http_Get fe fetchUrl' of
             None \<Rightarrow> Some (Inl CouldNotFetch)
           | Some resp \<Rightarrow>
               if StatusCode resp = 200
               then
                 (case readLimited sz resp of
                    Inl e \<Rightarrow> Some (Inl e)
                  | Inr (b, N) \<Rightarrow>
                      if N = 0 then Some (Inl (FeedTooLarge sz))
                      else
                        (case Autodiscover fe b of
                           None \<Rightarrow> Some (ParseFeed fe (ContentType resp) origUrl' fetchUrl' b)
                         | Some autoUrl0 \<Rightarrow>
                             if origUrl' = fetchUrl'
                             then
                               (let autoUrl = resolveAuto fe u autoUrl0
                                in if autoUrl \<noteq> fetchUrl' then fetchFeed fe origUrl' autoUrl
                                   else Some (ParseFeed fe (ContentType resp) origUrl' fetchUrl' b))
                             else Some (ParseFeed fe (ContentType resp) origUrl' fetchUrl' b)))
               else Some (Inl BadResponseCode)))"

section \<open>The poll task: \<^verbatim>\<open>UpdateFeed\<close> and its \<^verbatim>\<open>feedError\<close>\<close>

text \<open>The handler's own clock readings (lines 794 and 810) and datastore failures.\<close>

record handler_env =
  nowCheck :: Time
  nowError :: Time
  h_get_fails :: bool
  h_put_fails :: bool

datatype outcome = EmptyFeed | GetFailed | AlreadyUpdated | FeedErr error | Success

text \<open>
  Lines 803 to 809: the hours \<open>v\<close>, from the error count after its increment. The
  count is a Go \<^verbatim>\<open>int\<close> of 64 bits and \<^verbatim>\<open>v := f.Errors + 1\<close> wraps around at
  \<open>2 ^ 63 - 1\<close>; the definition is the code's computation for the counts below that, and
  the theorems about it are stated for those counts.
\<close>

definition backoffHours :: "int \<Rightarrow> int" where
  "backoffHours errors =
     (let v = errors + 1; max = 24 * 7
      in if v > max then max else if errors = 1 then 0 else v)"

text \<open>
  Lines 800 to 813: the feed with its count bumped and its next update moved, and the
  store after \<^verbatim>\<open>gn.Put(&f)\<close>, whose error the closure drops.
\<close>

definition feedError :: "handler_env \<Rightarrow> Feed \<Rightarrow> store \<Rightarrow> store \<times> Feed" where
  "feedError h f st =
     (let f1 = f\<lparr>Errors := Errors f + 1\<rparr>;
          v = backoffHours (Errors f1);
          f2 = f1\<lparr>NextUpdate := nowError h + Hour * v\<rparr>
      in (if h_put_fails h then st else store_put (EFeed f2) st, f2))"

text \<open>
  Lines 770 to 825, up to the call \<^verbatim>\<open>f.Subscribe(c)\<close>, which is not in the sources at
  hand; \<open>isLast\<close> is the handler's \<^verbatim>\<open>last\<close>. \<open>None\<close> is a fetch that does not
  return.
\<close>

definition UpdateFeed ::
  "handler_env \<Rightarrow> fetch_env \<Rightarrow> env \<Rightarrow> store \<Rightarrow> string \<Rightarrow> bool \<Rightarrow> (store \<times> outcome) option" where
  "UpdateFeed h fe env st url isLast =
     (if url = [] then Some (st, EmptyFeed)
      else
        (case Get (h_get_fails h) st url of
           None \<Rightarrow> Some (st, GetFailed)
         | Some f \<Rightarrow>
             if \<not> isLast \<and> nowCheck h < NextUpdate f then Some (st, AlreadyUpdated)
             else
               (case fetchFeed fe (Url f) (Url f) of
                  None \<Rightarrow> None
                | Some (Inl e) \<Rightarrow> Some (fst (feedError h f st), FeedErr e)
                | Some (Inr (feed, stories)) \<Rightarrow>
                    (let r = updateFeed env st (Url f) feed stories False False isLast
                     in case r_err r of
                          Some e \<Rightarrow> Some (fst (feedError h f (r_store r)), FeedErr e)
                        | None \<Rightarrow> Some (r_store r, Success)))))"

section \<open>The subscription list: \<^verbatim>\<open>mergeUserOpml\<close>\<close>

datatype OpmlOutline =
  OpmlOutline (Outline: "OpmlOutline list") (Title: string) (XmlUrl: string)
    (Text: string) (HtmlUrl: string)

record Opml =
  Outline :: "OpmlOutline list"

record UserData =
  Opml :: string

text \<open>
  \<^verbatim>\<open>encoding/json\<close> is a parameter: \<open>Unmarshal\<close> gives the tree \<^verbatim>\<open>json.Unmarshal\<close> leaves in
  \<^verbatim>\<open>fs\<close> (its error is dropped by the code), \<open>Marshal\<close> the bytes or the error of
  \<^verbatim>\<open>json.Marshal\<close>.
\<close>

record codec =
  Unmarshal :: "string \<Rightarrow> Opml"
  Marshal :: "Opml \<Rightarrow> error + string"

text \<open>Lines 180 to 190: the URLs of the current tree.\<close>

definition treeUrls :: "OpmlOutline list \<Rightarrow> string set" where
  "treeUrls os =
     (\<Union>ol \<in> set os. if XmlUrl ol \<noteq> [] then {XmlUrl ol}
                      else set (map XmlUrl (OpmlOutline.Outline ol)))"

text \<open>
  Lines 201 to 208: the outline is appended to the first top-level folder with the label;
  \<open>None\<close> when there is none (\<^verbatim>\<open>done\<close> stays false).
\<close>

fun appendToFolder :: "string \<Rightarrow> OpmlOutline \<Rightarrow> OpmlOutline list \<Rightarrow> OpmlOutline list option" where
  "appendToFolder label outline [] = None"
| "appendToFolder label outline (ol # ols) =
     (if Title ol = label \<and> XmlUrl ol = []
      then Some (OpmlOutline (OpmlOutline.Outline ol @ [outline]) (Title ol) (XmlUrl ol)
                   (Text ol) (HtmlUrl ol) # ols)
      else map_option ((#) ol) (appendToFolder label outline ols))"

text \<open>Lines 192 to 217, on the pair of the URL set and \<^verbatim>\<open>fs.Outline\<close>.\<close>

definition mergeOutline ::
  "string \<Rightarrow> OpmlOutline \<Rightarrow> string set \<times> OpmlOutline list \<Rightarrow> string set \<times> OpmlOutline list" where
  "mergeOutline label outline = (\<lambda>(urls, os).
     if XmlUrl outline \<in> urls then (urls, os)
     else
       (let urls' = insert (XmlUrl outline) urls
        in if label = [] then (urls', os @ [outline])
           else
             (case appendToFolder label outline os of
                Some os' \<Rightarrow> (urls', os')
              | None \<Rightarrow> (urls', os @ [OpmlOutline [outline] label [] [] []]))))"

text \<open>Lines 219 to 227.\<close>

definition mergeOutlines ::
  "OpmlOutline list \<Rightarrow> string set \<times> OpmlOutline list \<Rightarrow> string set \<times> OpmlOutline list" where
  "mergeOutlines outlines =
     fold (\<lambda>outline.
             if XmlUrl outline \<noteq> [] then mergeOutline [] outline
             else fold (mergeOutline (Title outline)) (OpmlOutline.Outline outline))
          outlines"

text \<open>The tree after the merge: lines 180 to 227 on the decoded \<^verbatim>\<open>fs\<close>.\<close>

definition mergeTree :: "Opml \<Rightarrow> OpmlOutline list \<Rightarrow> Opml" where
  "mergeTree fs outlines =
     fs\<lparr>Opml.Outline :=
          snd (mergeOutlines outlines (treeUrls (Opml.Outline fs), Opml.Outline fs))\<rparr>"


section \<open>Concrete inputs\<close>

text \<open>
  A feed stored with two errors and a seven-hour average, last changed at hour 900; the
  document fetched at hour 1000 declares a change at hour 950 and carries the story
  \<open>A\<close>. The scheduler is the spec's baseline, the current time plus the average interval;
  the estimate is the mean of the old average and the interval since the previous content
  timestamp divided by the number of stories written; the compressor puts the two
  identification bytes of a gzip stream before the data.
\<close>

definition ex_url :: string where
  "ex_url = ''http://a/feed''"

definition ex_stored :: Feed where
  "ex_stored = \<lparr>Url = ex_url, Title = ''A'', Link = ''http://a/'', Updated = 900 * Hour,
     Checked = 999 * Hour, NextUpdate = 999 * Hour, LastViewed = 990 * Hour, Date = 900 * Hour,
     Average = 7 * Hour, Errors = 2, Subscribed = 0, Hub = []\<rparr>"

definition ex_parsed :: Feed where
  "ex_parsed = \<lparr>Url = ex_url, Title = ''A'', Link = ''http://a/'', Updated = 950 * Hour,
     Checked = 1000 * Hour, NextUpdate = 0, LastViewed = 0, Date = 0,
     Average = 0, Errors = 0, Subscribed = 0, Hub = []\<rparr>"

definition ex_storyA :: Story where
  "ex_storyA = \<lparr>Story.Id = ''A'', Parent = ex_url, Created = 1000 * Hour,
     Published = 940 * Hour, Updated = 940 * Hour, content = ''alpha''\<rparr>"

definition ex_store :: store where
  "ex_store = \<lparr>feedTbl = [ex_url \<mapsto> ex_stored], storyTbl = Map.empty, contentTbl = Map.empty\<rparr>"

definition ex_env :: env where
  "ex_env = \<lparr>nowLastViewed = 1000 * Hour, nowUpdated = 1000 * Hour, nowDate = 1000 * Hour,
     nowWait = 1000 * Hour, next_due = (\<lambda>f. 1000 * Hour + Average f),
     avg_est = (\<lambda>f previousUpdate updateCount.
                  (Average f + (1000 * Hour - previousUpdate) div updateCount) div 2),
     gz = (\<lambda>b. Some (CHR 0x1F # CHR 0x8B # b)), get_fails = False, getMulti_fails = False,
     put_fails = (\<lambda>k. False)\<rparr>"

text \<open>
  The same store with story \<open>A\<close> already in it, first seen at hour 500, and the document
  that declares the change time the store already has.
\<close>

definition ex_storedA :: Story where
  "ex_storedA = \<lparr>Story.Id = ''A'', Parent = ex_url, Created = 500 * Hour,
     Published = 500 * Hour, Updated = 930 * Hour, content = ''old''\<rparr>"

definition ex_store2 :: store where
  "ex_store2 = ex_store\<lparr>storyTbl := [(ex_url, ''A'') \<mapsto> ex_storedA]\<rparr>"

definition ex_unchanged :: Feed where
  "ex_unchanged = ex_parsed\<lparr>Feed.Updated := 900 * Hour\<rparr>"

definition ex_call :: call where
  "ex_call = \<lparr>c_env = ex_env, c_url = ex_url, c_feed = ex_parsed, c_stories = [ex_storyA],
     c_updateAll = False, c_fromSub = False, c_updateLast = False\<rparr>"

text \<open>A poll at hour 1000 whose HTTP request fails.\<close>

definition ex_handler :: handler_env where
  "ex_handler = \<lparr>nowCheck = 1000 * Hour, nowError = 1000 * Hour, h_get_fails = False,
     h_put_fails = False\<rparr>"

definition ex_fetch :: fetch_env where
  "ex_fetch = \<lparr>url_Parse = (\<lambda>s. Some \<lparr>Scheme = ''http'', Host = ''a'', Path = ''/feed'', Rest = []\<rparr>),
     url_String = (\<lambda>u. Scheme u @ ''://'' @ Host u @ Path u),
     http_Get = (\<lambda>u. None),
     Autodiscover = (\<lambda>b. None),
     ParseFeed = (\<lambda>contentType origUrl fetchUrl b. Inl ParseFeedError)\<rparr>"

text \<open>
  Two servers: one answers every request with a body one byte longer than the ceiling, the
  other with a short feed document that the parser accepts.
\<close>

definition ex_fetch_big :: fetch_env where
  "ex_fetch_big = ex_fetch\<lparr>http_Get := (\<lambda>u. Some \<lparr>StatusCode = 200, ContentType = ''text/xml'',
     Body = replicate (Suc sz) (CHR ''x''), read_fails = False\<rparr>)\<rparr>"

definition ex_fetch_ok :: fetch_env where
  "ex_fetch_ok = ex_fetch\<lparr>http_Get := (\<lambda>u. Some \<lparr>StatusCode = 200, ContentType = ''text/xml'',
     Body = ''<rss/>'', read_fails = False\<rparr>),
     ParseFeed := (\<lambda>contentType origUrl fetchUrl b. Inr (ex_parsed, [ex_storyA]))\<rparr>"

text \<open>
  A subscription tree with one top-level feed and one folder holding a second feed, and a
  serialiser for it: \<open>ex_render\<close> writes a node as its title, its URL and its children,
  and the decoder knows the bytes of this one tree.
\<close>

definition ex_leafA :: OpmlOutline where
  "ex_leafA = OpmlOutline [] ''Feed A'' ''http://a/feed'' [] ''http://a/''"

definition ex_leafB :: OpmlOutline where
  "ex_leafB = OpmlOutline [] ''Feed B'' ''http://b/feed'' [] ''http://b/''"

definition ex_leafC :: OpmlOutline where
  "ex_leafC = OpmlOutline [] ''Feed C'' ''http://c/feed'' [] ''http://c/''"

definition ex_tree :: Opml where
  "ex_tree = \<lparr>Opml.Outline = [ex_leafA, OpmlOutline [ex_leafB] ''News'' [] [] []]\<rparr>"

fun ex_render :: "OpmlOutline \<Rightarrow> string" where
  "ex_render (OpmlOutline children title xmlUrl text htmlUrl) =
     ''{'' @ title @ ''|'' @ xmlUrl @ ''['' @ concat (map ex_render children) @ '']}''"

definition ex_codec :: codec where
  "ex_codec = \<lparr>Unmarshal = (\<lambda>b. if b = concat (map ex_render (Opml.Outline ex_tree))
                               then ex_tree else \<lparr>Opml.Outline = []\<rparr>),
     Marshal = (\<lambda>fs. Inr (concat (map ex_render (Opml.Outline fs))))\<rparr>"

definition ex_user :: UserData where
  "ex_user = \<lparr>UserData.Opml = concat (map ex_render (Opml.Outline ex_tree))\<rparr>"

section \<open>Lemmas on the datastore and on the phases of \<^verbatim>\<open>updateFeed\<close>\<close>

lemmas ex_defs = ex_url_def ex_stored_def ex_parsed_def ex_storyA_def ex_store_def ex_env_def
  ex_storedA_def ex_store2_def ex_unchanged_def ex_call_def

lemmas run_defs = updateFeed_def Get_def carryOver_def updateStories_def diffStory_def
  mkContent_def Put_def finishFeed_def scheduleNextUpdate_def updateAverage_def IsZero_def
  Let_def



lemma store_put_content_tbls [simp]:
  "feedTbl (store_put (EContent c) st) = feedTbl st"
  "storyTbl (store_put (EContent c) st) = storyTbl st"
  by simp_all

lemma store_put_story_feedTbl [simp]:
  "feedTbl (store_put (EStory s) st) = feedTbl st"
  by simp

lemma store_put_feed_storyTbl [simp]:
  "storyTbl (store_put (EFeed f) st) = storyTbl st"
  by simp

lemma putContents_tbls:
  "putContents env ss st = (st', scs, failed) \<Longrightarrow>
     feedTbl st' = feedTbl st \<and> storyTbl st' = storyTbl st"
proof (induction ss arbitrary: st st' scs failed)
  case Nil
  then show ?case by simp
next
  case (Cons s ss)
  show ?case
  proof (cases "put_fails env (Key (EContent (mkContent env s)))")
    case True
    with Cons.prems show ?thesis by (simp add: Let_def Put_def)
  next
    case False
    obtain st2 scs2 failed2 where
      r: "putContents env ss (store_put (EContent (mkContent env s)) st) = (st2, scs2, failed2)"
      by (metis prod_cases3)
    from Cons.prems False r have "st' = st2" by (simp add: Let_def Put_def)
    with Cons.IH [OF r] show ?thesis by simp
  qed
qed

lemma putContents_puts:
  "putContents env ss st = (st', scs, failed) \<Longrightarrow>
     set scs \<subseteq> (\<lambda>s. EContent (mkContent env s)) ` set ss"
proof (induction ss arbitrary: st st' scs failed)
  case Nil
  then show ?case by simp
next
  case (Cons s ss)
  show ?case
  proof (cases "put_fails env (Key (EContent (mkContent env s)))")
    case True
    with Cons.prems show ?thesis by (auto simp add: Let_def Put_def)
  next
    case False
    obtain st2 scs2 failed2 where
      r: "putContents env ss (store_put (EContent (mkContent env s)) st) = (st2, scs2, failed2)"
      by (metis prod_cases3)
    from Cons.prems False r have "scs = EContent (mkContent env s) # scs2"
      by (simp add: Let_def Put_def)
    with Cons.IH [OF r] show ?thesis by auto
  qed
qed

lemma PutMulti_stories_feedTbl:
  "feedTbl (fst (PutMulti env (map EStory us) st)) = feedTbl st"
proof (induction us arbitrary: st)
  case Nil
  show ?case by simp
next
  case (Cons s us)
  show ?case
  proof (cases "put_fails env (Key (EStory s))")
    case True
    with Cons.IH [of st] show ?thesis by (auto simp add: Put_def split: prod.splits)
  next
    case False
    with Cons.IH [of "store_put (EStory s) st"] show ?thesis
      by (auto simp add: Put_def split: prod.splits simp del: store_put.simps)
  qed
qed

lemma PutMulti_ok:
  "snd (PutMulti env es st) = False \<Longrightarrow>
     (\<forall>e \<in> set es. \<not> put_fails env (Key e)) \<and> fst (PutMulti env es st) = fold store_put es st"
proof (induction es arbitrary: st)
  case Nil
  show ?case by simp
next
  case (Cons e es)
  from Cons.prems have a: "\<not> put_fails env (Key e)" and b: "snd (PutMulti env es (store_put e st)) = False"
    by (auto simp: Put_def split: prod.splits if_splits)
  from Cons.IH [OF b] a show ?case
    by (simp add: Put_def split: prod.splits)
qed


lemma carryOver_fields [simp]:
  "Url (carryOver env f0 feed ul) = Url feed"
  "Errors (carryOver env f0 feed ul) = Errors feed"
  "Date (carryOver env f0 feed ul) = Date f0"
  "Average (carryOver env f0 feed ul) = Average f0"
  "LastViewed (carryOver env f0 feed ul) = (if ul then nowLastViewed env else LastViewed f0)"
  by (simp_all add: carryOver_def Let_def)

lemma finishFeed_fields [simp]:
  "Url (finishFeed env f n hu fs) = Url f"
  "Errors (finishFeed env f n hu fs) = Errors f"
  "LastViewed (finishFeed env f n hu fs) = LastViewed f"
  by (simp_all add: finishFeed_def scheduleNextUpdate_def updateAverage_def Let_def)

lemma finishFeed_none:
  "Date (finishFeed env f 0 hu fs) = Date f" "Average (finishFeed env f 0 hu fs) = Average f"
  by (simp_all add: finishFeed_def scheduleNextUpdate_def updateAverage_def Let_def)

lemma finishFeed_fromSub:
  "NextUpdate (finishFeed env f n hu True) =
     max (NextUpdate (finishFeed env f n hu False)) (nowWait env + Hour * 6)"
  by (simp add: finishFeed_def Let_def max_def)

lemma writes_append:
  "feedWrites (xs @ ys) = feedWrites xs @ feedWrites ys"
  "storyWrites (xs @ ys) = storyWrites xs @ storyWrites ys"
  "contentWrites (xs @ ys) = contentWrites xs @ contentWrites ys"
  by (induction xs rule: feedWrites.induct) simp_all

lemma writes_stories [simp]:
  "feedWrites (map EStory us) = []"
  "storyWrites (map EStory us) = us"
  "contentWrites (map EStory us) = []"
  by (induction us) simp_all

lemma writes_contents:
  "set es \<subseteq> range EContent \<Longrightarrow> feedWrites es = [] \<and> storyWrites es = []"
  by (induction es rule: feedWrites.induct) auto

lemma putContents_writes:
  assumes "putContents env ss st = (st', scs, failed)"
  shows "feedWrites scs = []" "storyWrites scs = []"
    "set (contentWrites scs) \<subseteq> mkContent env ` set ss"
proof -
  from putContents_puts [OF assms] have s: "set scs \<subseteq> (\<lambda>s. EContent (mkContent env s)) ` set ss" .
  then have "set scs \<subseteq> range EContent" by auto
  then show "feedWrites scs = []" "storyWrites scs = []" using writes_contents by blast+
  from s show "set (contentWrites scs) \<subseteq> mkContent env ` set ss"
    by (induction scs rule: contentWrites.induct) auto
qed

text \<open>The two ways a call returns without an error.\<close>

lemma updateFeed_ok:
  assumes "r = updateFeed env st url feed stories updateAll fromSub updateLast"
    and "r_err r = None"
  obtains
    (short) f0 where "Get (get_fails env) st url = Some f0"
      "\<not> IsZero (Feed.Updated feed)" "Feed.Updated f0 = Feed.Updated feed"
      "\<not> updateAll" "\<not> fromSub"
      "r_puts r = [EFeed (scheduleNextUpdate env
                     ((carryOver env f0 feed updateLast)\<lparr>Feed.Updated := nowUpdated env\<rparr>))]"
      "r_store r = fst (Put env (EFeed (scheduleNextUpdate env
                     ((carryOver env f0 feed updateLast)\<lparr>Feed.Updated := nowUpdated env\<rparr>))) st)"
  | (full) f0 stc scs where "Get (get_fails env) st url = Some f0"
      "\<not> (\<not> IsZero (Feed.Updated feed) \<and> Feed.Updated f0 = Feed.Updated feed \<and>
          \<not> updateAll \<and> \<not> fromSub)"
      "putContents env (updateStories st (Url feed) stories updateAll) st = (stc, scs, False)"
      "PutMulti env
         (EFeed (finishFeed env (carryOver env f0 feed updateLast)
                   (length (updateStories st (Url feed) stories updateAll))
                   (\<not> IsZero (Feed.Updated feed)) fromSub)
          # map EStory (updateStories st (Url feed) stories updateAll)) stc = (r_store r, False)"
      "r_puts r = scs @
         EFeed (finishFeed env (carryOver env f0 feed updateLast)
                   (length (updateStories st (Url feed) stories updateAll))
                   (\<not> IsZero (Feed.Updated feed)) fromSub)
          # map EStory (updateStories st (Url feed) stories updateAll)"
  using assms
  by (auto simp add: updateFeed_def Let_def split: option.splits if_splits prod.splits bool.splits)

lemma diffStory_same:
  "s' \<in> set (diffStory ua s prior) \<Longrightarrow>
     Story.Id s' = Story.Id s \<and> Story.Parent s' = Story.Parent s \<and>
     Story.Updated s' = Story.Updated s \<and> content s' = content s"
  by (auto simp add: diffStory_def Let_def split: option.splits if_splits)

lemma updateStories_origin:
  assumes "s' \<in> set (updateStories st fk stories ua)"
  obtains s where "s \<in> set stories" "s' \<in> set (diffStory ua s (storyTbl st (fk, Story.Id s)))"
  using assms by (auto simp add: updateStories_def)

lemma updateFeed_contents:
  "set (contentWrites (r_puts (updateFeed env st url feed stories ua fs ul)))
     \<subseteq> mkContent env ` set (updateStories st (Url feed) stories ua)"
proof -
  obtain stc scs failed where
    pc: "putContents env (updateStories st (Url feed) stories ua) st = (stc, scs, failed)"
    by (metis prod_cases3)
  note w = putContents_writes [OF pc]
  show ?thesis
    using w pc
    by (auto simp add: updateFeed_def Let_def writes_append
          split: option.splits if_splits prod.splits bool.splits)
qed

lemma carryOver_frame:
  "carryOver env f0 (feed\<lparr>Date := d, Average := a, LastViewed := l\<rparr>) ul = carryOver env f0 feed ul"
  by (simp add: carryOver_def Let_def)


section \<open>Reconciliation: the claims\<close>

text \<open>
  Claim C6. Every \<^verbatim>\<open>StoryContent\<close> record that \<^verbatim>\<open>updateFeed\<close> submits has exactly one of
  its compressed and raw fields populated, and the raw field is populated only when the
  compressor failed. The gzip writer is a parameter; what is assumed of it is what the gzip
  format gives: a stream it produced is never empty (it starts with a header), and it does
  not fail on a story with empty content (the writer is created at
  \<^verbatim>\<open>gzip.BestCompression\<close>, a valid level, so it does not fail at all).
\<close>

theorem content_one_form:
  assumes "r = updateFeed env st url feed stories updateAll fromSub updateLast"
    and "\<forall>s \<in> set stories.
           gz env (content s) \<noteq> Some [] \<and> (gz env (content s) = None \<longrightarrow> content s \<noteq> [])"
  shows "\<forall>sc \<in> set (contentWrites (r_puts r)).
           ((Compressed sc \<noteq> []) \<noteq> (Content sc \<noteq> [])) \<and>
           (Content sc \<noteq> [] \<longrightarrow>
              (\<exists>s \<in> set stories. Content sc = content s \<and> gz env (content s) = None))"
proof
  fix sc assume "sc \<in> set (contentWrites (r_puts r))"
  with assms(1) updateFeed_contents obtain s' where
    s': "s' \<in> set (updateStories st (Url feed) stories updateAll)" and sc: "sc = mkContent env s'"
    by blast
  from s' obtain s where s: "s \<in> set stories" and c: "content s' = content s"
    by (auto elim!: updateStories_origin dest: diffStory_same)
  from assms(2) s have g: "gz env (content s) \<noteq> Some []"
    "gz env (content s) = None \<longrightarrow> content s \<noteq> []" by auto
  show "((Compressed sc \<noteq> []) \<noteq> (Content sc \<noteq> [])) \<and>
           (Content sc \<noteq> [] \<longrightarrow>
              (\<exists>s \<in> set stories. Content sc = content s \<and> gz env (content s) = None))"
  proof (cases "gz env (content s)")
    case None
    with g c sc s show ?thesis by (auto simp add: mkContent_def)
  next
    case (Some z)
    with g c sc show ?thesis by (auto simp add: mkContent_def)
  qed
qed

theorem content_one_form_witness:
  "gz ex_env (content ex_storyA) = Some (CHR 0x1F # CHR 0x8B # ''alpha'') \<and>
   contentWrites (r_puts (updateFeed ex_env ex_store ex_url ex_parsed [ex_storyA] False False False))
     = [\<lparr>StoryContent.Id = 1, Parent = (ex_url, ''A''),
         Compressed = CHR 0x1F # CHR 0x8B # ''alpha'', Content = []\<rparr>] \<and>
   (Compressed \<lparr>StoryContent.Id = 1, Parent = (ex_url, ''A''),
         Compressed = CHR 0x1F # CHR 0x8B # ''alpha'', Content = []\<rparr> \<noteq> []) \<noteq>
   (Content \<lparr>StoryContent.Id = 1, Parent = (ex_url, ''A''),
         Compressed = CHR 0x1F # CHR 0x8B # ''alpha'', Content = []\<rparr> \<noteq> [])"
proof -
  have g: "gz ex_env (content ex_storyA) = Some (CHR 0x1F # CHR 0x8B # ''alpha'')"
    by (simp add: ex_env_def ex_storyA_def)
  then have h: "\<forall>s \<in> set [ex_storyA].
      gz ex_env (content s) \<noteq> Some [] \<and> (gz ex_env (content s) = None \<longrightarrow> content s \<noteq> [])"
    by simp
  have c: "contentWrites
      (r_puts (updateFeed ex_env ex_store ex_url ex_parsed [ex_storyA] False False False))
     = [\<lparr>StoryContent.Id = 1, Parent = (ex_url, ''A''),
         Compressed = CHR 0x1F # CHR 0x8B # ''alpha'', Content = []\<rparr>]"
    by (simp add: run_defs ex_defs)
  from content_one_form [OF refl h] have
    "\<forall>sc \<in> set (contentWrites
        (r_puts (updateFeed ex_env ex_store ex_url ex_parsed [ex_storyA] False False False))).
      (Compressed sc \<noteq> []) \<noteq> (Content sc \<noteq> [])"
    by blast
  with g c show ?thesis by (simp del: StoryContent.simps)
qed

text \<open>
  Claim C1 as stated fails. The stored feed has an average interval of seven hours, the
  estimate after one new story is 53.5 hours, and the push-originated update at hour 1000
  stores a next-due time of hour 1053.5, later than hour 1006.
\<close>

theorem push_next_due_not_capped:
  "r_err (updateFeed ex_env ex_store ex_url ex_parsed [ex_storyA] False True False) = None \<and>
   map_option NextUpdate
     (feedTbl (r_store (updateFeed ex_env ex_store ex_url ex_parsed [ex_storyA] False True False))
        ex_url) = Some (1000 * Hour + 107 * Hour div 2) \<and>
   \<not> 1000 * Hour + 107 * Hour div 2 \<le> nowWait ex_env + 6 * Hour"
  by (simp add: run_defs ex_defs Hour_def)

text \<open>
  Claim C1, as amended. The code moves the next-due time of a push-originated update
  forward, not back: \<^verbatim>\<open>if f.NextUpdate.Before(wait) { f.NextUpdate = wait }\<close>. When a call
  with \<^verbatim>\<open>fromSub\<close> set returns without an error, the feed it wrote and stored has a
  next-due time no earlier than the time read at line 756 plus six hours: it is the later
  of that time and the next-due time the same call computes without \<^verbatim>\<open>fromSub\<close>.
\<close>

theorem push_next_due:
  assumes "r = updateFeed env st url feed stories updateAll True updateLast"
    and "r_err r = None"
  shows "\<exists>f0 f. Get (get_fails env) st url = Some f0 \<and>
           feedWrites (r_puts r) = [f] \<and> feedTbl (r_store r) (Url feed) = Some f \<and>
           nowWait env + Hour * 6 \<le> NextUpdate f \<and>
           NextUpdate f =
             max (NextUpdate (finishFeed env (carryOver env f0 feed updateLast)
                                (length (storyWrites (r_puts r)))
                                (\<not> IsZero (Feed.Updated feed)) False))
                 (nowWait env + Hour * 6)"
  using assms
proof (cases rule: updateFeed_ok)
  case (short f0)
  then show ?thesis by simp
next
  case (full f0 stc scs)
  let ?us = "updateStories st (Url feed) stories updateAll"
  let ?f = "finishFeed env (carryOver env f0 feed updateLast) (length ?us)
              (\<not> IsZero (Feed.Updated feed)) True"
  note w = putContents_writes [OF full(3)] putContents_tbls [OF full(3)]
  from full(4) have ok: "\<not> put_fails env (Key (EFeed ?f))"
    and st: "r_store r = fst (PutMulti env (map EStory ?us) (store_put (EFeed ?f) stc))"
    by (auto simp add: Put_def split: prod.splits if_splits)
  have "feedTbl (r_store r) (Url feed) = Some ?f"
    unfolding st PutMulti_stories_feedTbl by simp
  moreover have "feedWrites (r_puts r) = [?f]" "storyWrites (r_puts r) = ?us"
    using full(5) w by (simp_all add: writes_append)
  ultimately show ?thesis
    using full(1) finishFeed_fromSub [of env "carryOver env f0 feed updateLast" "length ?us"]
    by auto
qed

theorem push_next_due_witness:
  "r_err (updateFeed ex_env ex_store ex_url ex_parsed [] False True False) = None \<and>
   (\<exists>f0 f. Get (get_fails ex_env) ex_store ex_url = Some f0 \<and>
      feedWrites (r_puts (updateFeed ex_env ex_store ex_url ex_parsed [] False True False)) = [f] \<and>
      feedTbl (r_store (updateFeed ex_env ex_store ex_url ex_parsed [] False True False)) ex_url
        = Some f \<and>
      nowWait ex_env + Hour * 6 \<le> NextUpdate f \<and>
      NextUpdate f = max (1007 * Hour) (1000 * Hour + Hour * 6))"
proof -
  let ?r = "updateFeed ex_env ex_store ex_url ex_parsed [] False True False"
  have h: "r_err ?r = None" by (simp add: run_defs ex_defs)
  have u: "Url ex_parsed = ex_url" by (simp add: ex_parsed_def)
  have g: "Get (get_fails ex_env) ex_store ex_url = Some ex_stored"
    by (simp add: Get_def ex_defs)
  have n: "storyWrites (r_puts ?r) = []" by (simp add: run_defs ex_defs)
  have m: "NextUpdate (finishFeed ex_env (carryOver ex_env ex_stored ex_parsed False) 0
             (\<not> IsZero (Feed.Updated ex_parsed)) False) = 1007 * Hour"
    by (simp add: run_defs ex_defs)
  have w: "nowWait ex_env = 1000 * Hour" by (simp add: ex_env_def)
  from push_next_due [OF refl h] show ?thesis
    unfolding u g n using h m w by auto
qed

text \<open>
  Claim C10 as stated fails: a document that brings a new story changes \<^verbatim>\<open>Date\<close> and
  \<^verbatim>\<open>Average\<close> (lines 747 to 753). The stored feed has date hour 900 and average seven
  hours; after the poll at hour 1000 that writes story \<open>A\<close> the stored date is hour 1000 and
  the average 53.5 hours.
\<close>

theorem bookkeeping_not_frozen:
  "map_option Date (feedTbl ex_store ex_url) = Some (900 * Hour) \<and>
   map_option Average (feedTbl ex_store ex_url) = Some (7 * Hour) \<and>
   r_err (updateFeed ex_env ex_store ex_url ex_parsed [ex_storyA] False False False) = None \<and>
   map_option Date
     (feedTbl (r_store (updateFeed ex_env ex_store ex_url ex_parsed [ex_storyA] False False False))
        ex_url) = Some (1000 * Hour) \<and>
   map_option Average
     (feedTbl (r_store (updateFeed ex_env ex_store ex_url ex_parsed [ex_storyA] False False False))
        ex_url) = Some (107 * Hour div 2) \<and>
   900 * Hour \<noteq> 1000 * Hour \<and> 7 * Hour \<noteq> 107 * Hour div 2"
  by (simp add: run_defs ex_defs Hour_def)

text \<open>
  Claim C10, as amended. When \<^verbatim>\<open>updateFeed\<close> returns without an error, it submitted one
  feed; that feed is the stored one unless its write failed; its \<^verbatim>\<open>LastViewed\<close> is the
  stored feed's, or the time read at line 684 when \<^verbatim>\<open>updateLast\<close> is set; and when no
  story was queued for writing its \<^verbatim>\<open>Date\<close> and \<^verbatim>\<open>Average\<close> are the stored feed's.
  The parsed document's own \<^verbatim>\<open>Date\<close>, \<^verbatim>\<open>Average\<close> and \<^verbatim>\<open>LastViewed\<close> never matter:
  changing them changes nothing in the outcome of the call.
\<close>

theorem bookkeeping_frame:
  assumes "r = updateFeed env st url feed stories updateAll fromSub updateLast"
    and "r_err r = None"
  shows "(\<exists>f0 f. Get (get_fails env) st url = Some f0 \<and> feedWrites (r_puts r) = [f] \<and>
           (\<not> put_fails env (FeedKey (Url feed)) \<longrightarrow> feedTbl (r_store r) (Url feed) = Some f) \<and>
           LastViewed f = (if updateLast then nowLastViewed env else LastViewed f0) \<and>
           (storyWrites (r_puts r) = [] \<longrightarrow> Date f = Date f0 \<and> Average f = Average f0)) \<and>
         updateFeed env st url (feed\<lparr>Date := d, Average := a, LastViewed := l\<rparr>) stories
           updateAll fromSub updateLast = r"
proof
  show "updateFeed env st url (feed\<lparr>Date := d, Average := a, LastViewed := l\<rparr>) stories
           updateAll fromSub updateLast = r"
    unfolding assms(1) by (simp add: updateFeed_def carryOver_frame cong: option.case_cong)
  from assms show "\<exists>f0 f. Get (get_fails env) st url = Some f0 \<and> feedWrites (r_puts r) = [f] \<and>
           (\<not> put_fails env (FeedKey (Url feed)) \<longrightarrow> feedTbl (r_store r) (Url feed) = Some f) \<and>
           LastViewed f = (if updateLast then nowLastViewed env else LastViewed f0) \<and>
           (storyWrites (r_puts r) = [] \<longrightarrow> Date f = Date f0 \<and> Average f = Average f0)"
  proof (cases rule: updateFeed_ok)
    case (short f0)
    then show ?thesis
      by (simp add: scheduleNextUpdate_def Put_def)
  next
    case (full f0 stc scs)
    let ?us = "updateStories st (Url feed) stories updateAll"
    let ?f = "finishFeed env (carryOver env f0 feed updateLast) (length ?us)
                (\<not> IsZero (Feed.Updated feed)) fromSub"
    note w = putContents_writes [OF full(3)] putContents_tbls [OF full(3)]
    from full(4) have ok: "\<not> put_fails env (Key (EFeed ?f))"
      and st: "r_store r = fst (PutMulti env (map EStory ?us) (store_put (EFeed ?f) stc))"
      by (auto simp add: Put_def split: prod.splits if_splits)
    have "feedTbl (r_store r) (Url feed) = Some ?f"
      unfolding st PutMulti_stories_feedTbl by simp
    moreover have "feedWrites (r_puts r) = [?f]" "storyWrites (r_puts r) = ?us"
      using full(5) w by (simp_all add: writes_append)
    ultimately show ?thesis
      using full(1) by (auto simp add: finishFeed_none)
  qed
qed

theorem bookkeeping_frame_witness:
  "r_err (updateFeed ex_env ex_store ex_url ex_parsed [] False False True) = None \<and>
   \<not> put_fails ex_env (FeedKey (Url ex_parsed)) \<and>
   storyWrites (r_puts (updateFeed ex_env ex_store ex_url ex_parsed [] False False True)) = [] \<and>
   (\<exists>f. feedTbl (r_store (updateFeed ex_env ex_store ex_url ex_parsed [] False False True))
           (Url ex_parsed) = Some f \<and>
        LastViewed f = nowLastViewed ex_env \<and> Date f = Date ex_stored \<and>
        Average f = Average ex_stored) \<and>
   updateFeed ex_env ex_store ex_url (ex_parsed\<lparr>Date := 5, Average := 6, LastViewed := 7\<rparr>) []
     False False True = updateFeed ex_env ex_store ex_url ex_parsed [] False False True"
proof -
  let ?r = "updateFeed ex_env ex_store ex_url ex_parsed [] False False True"
  have h: "r_err ?r = None" by (simp add: run_defs ex_defs)
  have g: "Get (get_fails ex_env) ex_store ex_url = Some ex_stored"
    by (simp add: Get_def ex_defs)
  have n: "storyWrites (r_puts ?r) = []" by (simp add: run_defs ex_defs)
  have p: "\<not> put_fails ex_env (FeedKey (Url ex_parsed))" by (simp add: ex_env_def)
  from bookkeeping_frame [where d = 5 and a = 6 and l = 7, OF refl h] show ?thesis
    unfolding g using h n p by auto
qed


section \<open>Retry and backoff: the claims\<close>

lemma backoffHours_eq: "backoffHours e = (if e = 1 then 0 else min (e + 1) 168)"
  by (simp add: backoffHours_def Let_def min_def)

text \<open>
  Claim C5, as amended. From the error count \<open>e\<close> after the increment (so \<open>e\<close> is at least
  one) the delay in hours is zero for the first error and the smaller of \<open>e + 1\<close> and 168
  otherwise; over these counts it never decreases, is never negative and never exceeds 168.
  The counts stay below \<open>2 ^ 63 - 1\<close>, where the Go integer \<^verbatim>\<open>f.Errors + 1\<close> of line 803
  does not wrap around and \<open>backoffHours\<close> is what the code computes.
\<close>

theorem backoff_monotone_capped:
  "1 \<le> e \<Longrightarrow> e \<le> e' \<Longrightarrow> e' < 2 ^ 63 - 1 \<Longrightarrow>
     backoffHours e = (if e = 1 then 0 else min (e + 1) 168) \<and>
     backoffHours e \<le> backoffHours e' \<and> 0 \<le> backoffHours e \<and> backoffHours e' \<le> 168"
  by (auto simp add: backoffHours_eq min_def)

theorem backoff_monotone_capped_witness:
  "(1::int) \<le> 2 \<and> (2::int) \<le> 200 \<and> (200::int) < 2 ^ 63 - 1 \<and>
   backoffHours 2 = 3 \<and> backoffHours 2 \<le> backoffHours 200 \<and>
   0 \<le> backoffHours 2 \<and> backoffHours 200 \<le> 168"
  using backoff_monotone_capped [of 2 200] by simp

text \<open>
  Claim C5 as stated fails: the counts 0, 1, 2 are not mapped to 0, 1, 2 hours. A count of
  two after the increment (a count of one before it) gives three hours.
\<close>

theorem backoff_not_identity:
  "backoffHours 2 = 3 \<and> backoffHours 2 \<noteq> 2 \<and> backoffHours (1 + 1) \<noteq> 1"
  by (simp add: backoffHours_def)

text \<open>
  Claim C4. The poll task has read the feed \<open>f\<close> and goes on to fetch it; the fetch
  fails, or the fetch succeeds and \<^verbatim>\<open>updateFeed\<close> returns an error. Then the task ends in
  \<^verbatim>\<open>feedError\<close>: with \<open>e\<close> the error count after the increment, the feed stored under
  the URL is \<open>f\<close> with the count \<open>e\<close> and the next-due time set to the time read at line
  810 plus \<open>min (e + 1) 168\<close> hours, or plus zero hours when \<open>e = 1\<close>. The record is stored
  unless the datastore refuses the write, whose error the code drops. The count is in the
  range where the Go integer does not wrap around.
\<close>

theorem poll_failure_backoff:
  assumes "url \<noteq> []"
    and "Get (h_get_fails h) st url = Some f"
    and "isLast \<or> \<not> nowCheck h < NextUpdate f"
    and "fetchFeed fe url url = Some (Inl err) \<or>
         (\<exists>feed stories. fetchFeed fe url url = Some (Inr (feed, stories)) \<and>
            r_err (updateFeed env st url feed stories False False isLast) = Some err)"
    and "0 \<le> Errors f" and "Errors f < 2 ^ 63 - 2"
    and "e = Errors f + 1"
  shows "\<exists>st'. UpdateFeed h fe env st url isLast = Some (st', FeedErr err) \<and>
           (\<not> h_put_fails h \<longrightarrow>
              feedTbl st' url =
                Some (f\<lparr>Errors := e,
                        NextUpdate := nowError h + Hour * (if e = 1 then 0 else min (e + 1) 168)\<rparr>))"
proof -
  have u: "Url f = url" using assms(2) by (auto simp: Get_def split: if_splits)
  show ?thesis
    using assms u
    by (auto simp: UpdateFeed_def feedError_def backoffHours_eq Let_def)
qed

lemma ex_fetch_fails: "fetchFeed ex_fetch ex_url ex_url = Some (Inl CouldNotFetch)"
  by (subst fetchFeed.simps)
     (simp add: fetchTarget_def ex_fetch_def ex_url_def HasSuffix_def clURL_def)

theorem poll_failure_backoff_witness:
  "ex_url \<noteq> [] \<and> Get (h_get_fails ex_handler) ex_store ex_url = Some ex_stored \<and>
   \<not> nowCheck ex_handler < NextUpdate ex_stored \<and>
   fetchFeed ex_fetch ex_url ex_url = Some (Inl CouldNotFetch) \<and>
   0 \<le> Errors ex_stored \<and> Errors ex_stored < 2 ^ 63 - 2 \<and> \<not> h_put_fails ex_handler \<and>
   (\<exists>st'. UpdateFeed ex_handler ex_fetch ex_env ex_store ex_url False =
             Some (st', FeedErr CouldNotFetch) \<and>
          feedTbl st' ex_url = Some (ex_stored\<lparr>Errors := 3, NextUpdate := 1004 * Hour\<rparr>))"
proof -
  have a: "ex_url \<noteq> []" by (simp add: ex_url_def)
  have b: "Get (h_get_fails ex_handler) ex_store ex_url = Some ex_stored"
    by (simp add: Get_def ex_handler_def ex_store_def ex_stored_def)
  have c: "False \<or> \<not> nowCheck ex_handler < NextUpdate ex_stored"
    by (simp add: ex_handler_def ex_stored_def Hour_def)
  have d: "fetchFeed ex_fetch ex_url ex_url = Some (Inl CouldNotFetch) \<or>
         (\<exists>feed stories. fetchFeed ex_fetch ex_url ex_url = Some (Inr (feed, stories)) \<and>
            r_err (updateFeed ex_env ex_store ex_url feed stories False False False) =
              Some CouldNotFetch)"
    using ex_fetch_fails by simp
  have e: "0 \<le> Errors ex_stored" "Errors ex_stored < 2 ^ 63 - 2" "3 = Errors ex_stored + 1"
    by (simp_all add: ex_stored_def)
  have p: "\<not> h_put_fails ex_handler" by (simp add: ex_handler_def)
  from poll_failure_backoff [OF a b c d e] p
  have "\<exists>st'. UpdateFeed ex_handler ex_fetch ex_env ex_store ex_url False =
             Some (st', FeedErr CouldNotFetch) \<and>
          feedTbl st' ex_url = Some (ex_stored\<lparr>Errors := 3, NextUpdate := 1004 * Hour\<rparr>)"
    by (simp add: ex_handler_def Hour_def)
  with a b c ex_fetch_fails e p show ?thesis by simp
qed


section \<open>Lemmas on the story table\<close>

lemma diffStory_created:
  "s' \<in> set (diffStory ua s (Some p)) \<Longrightarrow> \<not> IsZero (Created p) \<Longrightarrow> Created s' = Created p"
  by (auto simp add: diffStory_def Let_def split: if_splits)

lemma Put_created:
  assumes "\<And>s. e = EStory s \<Longrightarrow> (Story.Parent s, Story.Id s) = k \<Longrightarrow> Created s = c"
    and "storyTbl st k = Some s1" and "Created s1 = c"
  shows "\<exists>s2. storyTbl (fst (Put env e st)) k = Some s2 \<and> Created s2 = c"
proof (cases e)
  case (EFeed f)
  with assms(2,3) show ?thesis by (simp add: Put_def)
next
  case (EStory s)
  show ?thesis
  proof (cases "(Story.Parent s, Story.Id s) = k")
    case True
    from assms(1) [OF EStory True] True EStory assms(2,3) show ?thesis
      by (auto simp add: Put_def)
  next
    case False
    with EStory assms(2,3) show ?thesis by (auto simp add: Put_def)
  qed
next
  case (EContent sc)
  with assms(2,3) show ?thesis by (simp add: Put_def)
qed

lemma PutMulti_Cons_fst:
  "fst (PutMulti env (e # es) st) = fst (PutMulti env es (fst (Put env e st)))"
  by (simp split: prod.splits)

lemma PutMulti_created:
  assumes "\<And>s. EStory s \<in> set es \<Longrightarrow> (Story.Parent s, Story.Id s) = k \<Longrightarrow> Created s = c"
    and "storyTbl st k = Some s1" and "Created s1 = c"
  shows "\<exists>s2. storyTbl (fst (PutMulti env es st)) k = Some s2 \<and> Created s2 = c"
  using assms
proof (induction es arbitrary: st s1)
  case Nil
  then show ?case by simp
next
  case (Cons e es)
  have "\<exists>s2. storyTbl (fst (Put env e st)) k = Some s2 \<and> Created s2 = c"
    by (rule Put_created [OF _ Cons.prems(2,3)]) (simp add: Cons.prems(1))
  then obtain s2 where s2: "storyTbl (fst (Put env e st)) k = Some s2" "Created s2 = c"
    by blast
  have "\<exists>s3. storyTbl (fst (PutMulti env es (fst (Put env e st)))) k = Some s3 \<and> Created s3 = c"
    by (rule Cons.IH [OF _ s2]) (simp add: Cons.prems(1))
  then show ?case unfolding PutMulti_Cons_fst .
qed

text \<open>The store a call leaves and what it submitted, by the place where it returns.\<close>

lemma updateFeed_cases:
  fixes env st url feed stories ua fs ul
  defines "r \<equiv> updateFeed env st url feed stories ua fs ul"
    and "us \<equiv> updateStories st (Url feed) stories ua"
  obtains
    (same) "r_store r = st" "r_puts r = []"
  | (short) f where "r_store r = fst (Put env (EFeed f) st)" "r_puts r = [EFeed f]"
      "Url f = Url feed" "Errors f = Errors feed"
  | (content) stc scs where "putContents env us st = (stc, scs, True)" "r_store r = stc"
      "r_puts r = scs"
  | (batch) f stc scs where "putContents env us st = (stc, scs, False)"
      "r_store r = fst (PutMulti env (EFeed f # map EStory us) stc)"
      "r_puts r = scs @ EFeed f # map EStory us" "Url f = Url feed" "Errors f = Errors feed"
proof (cases "Get (get_fails env) st url")
  case None
  then have "r_store r = st" "r_puts r = []" by (simp_all add: r_def updateFeed_def)
  then show ?thesis by (rule same)
next
  case (Some f0)
  show ?thesis
  proof (cases "\<not> IsZero (Feed.Updated feed) \<and> Feed.Updated f0 = Feed.Updated feed \<and> \<not> ua \<and> \<not> fs")
    case True
    let ?f = "scheduleNextUpdate env ((carryOver env f0 feed ul)\<lparr>Feed.Updated := nowUpdated env\<rparr>)"
    from Some True have "r_store r = fst (Put env (EFeed ?f) st)" "r_puts r = [EFeed ?f]"
      by (simp_all add: r_def updateFeed_def Let_def)
    moreover have "Url ?f = Url feed" "Errors ?f = Errors feed"
      by (simp_all add: scheduleNextUpdate_def)
    ultimately show ?thesis by (rule short)
  next
    case False
    note full = this
    show ?thesis
    proof (cases "getMulti_fails env")
      case True
      with Some full have "r_store r = st" "r_puts r = []"
        by (auto simp add: r_def updateFeed_def Let_def)
      then show ?thesis by (rule same)
    next
      case False
      obtain stc scs failed where pc: "putContents env us st = (stc, scs, failed)"
        by (metis prod_cases3)
      have u: "updateStories st (Url (carryOver env f0 feed ul)) stories ua = us"
        by (simp add: us_def)
      show ?thesis
      proof (cases failed)
        case True
        with Some full False pc u have "r_store r = stc" "r_puts r = scs"
          by (auto simp add: r_def updateFeed_def Let_def)
        with pc True show ?thesis by (auto intro: content)
      next
        case nf: False
        let ?f = "finishFeed env (carryOver env f0 feed ul) (length us)
                    (\<not> IsZero (Feed.Updated feed)) fs"
        from Some full False pc u nf
        have "r_store r = fst (PutMulti env (EFeed ?f # map EStory us) stc)"
          "r_puts r = scs @ EFeed ?f # map EStory us"
          by (auto simp add: r_def updateFeed_def Let_def split: prod.splits)
        moreover have "Url ?f = Url feed" "Errors ?f = Errors feed" by simp_all
        ultimately show ?thesis using pc nf by (auto intro: batch)
      qed
    qed
  qed
qed

lemmas updateFeed_cases' =
  updateFeed_cases [where env = env and st = st and url = url and feed = feed
    and stories = stories and ua = ua and fs = fs and ul = ul, case_names same short content batch]
  for env st url feed stories ua fs ul

lemma updateFeed_storyTbl:
  "storyTbl (r_store (updateFeed env st url feed stories ua fs ul)) = storyTbl st \<or>
   (\<exists>f stc. storyTbl stc = storyTbl st \<and>
      r_store (updateFeed env st url feed stories ua fs ul) =
        fst (PutMulti env (EFeed f # map EStory (updateStories st (Url feed) stories ua)) stc))"
proof (cases rule: updateFeed_cases' [of env st url feed stories ua fs ul])
  case same
  then show ?thesis by simp
next
  case (short f)
  then show ?thesis by (simp add: Put_def)
next
  case (content stc scs)
  with putContents_tbls [OF content(1)] show ?thesis by simp
next
  case (batch f stc scs)
  with putContents_tbls [OF batch(1)] show ?thesis by blast
qed

lemma updateFeed_storyWrites:
  "set (storyWrites (r_puts (updateFeed env st url feed stories ua fs ul)))
     \<subseteq> set (updateStories st (Url feed) stories ua)"
proof (cases rule: updateFeed_cases' [of env st url feed stories ua fs ul])
  case same
  then show ?thesis by simp
next
  case (short f)
  then show ?thesis by simp
next
  case (content stc scs)
  with putContents_writes(2) [OF content(1)] show ?thesis by simp
next
  case (batch f stc scs)
  with putContents_writes(2) [OF batch(1)] show ?thesis by (simp add: writes_append)
qed

lemma updateStories_created:
  assumes "s' \<in> set (updateStories st fk stories ua)"
    and "\<forall>s \<in> set stories. Story.Parent s = fk"
    and "storyTbl st (Story.Parent s', Story.Id s') = Some s0" and "\<not> IsZero (Created s0)"
  shows "Created s' = Created s0"
proof -
  from assms(1) obtain s where s: "s \<in> set stories"
    and d: "s' \<in> set (diffStory ua s (storyTbl st (fk, Story.Id s)))"
    by (rule updateStories_origin)
  from diffStory_same [OF d] assms(2) s have "(Story.Parent s', Story.Id s') = (fk, Story.Id s)"
    by simp
  with assms(3) d have "s' \<in> set (diffStory ua s (Some s0))" by simp
  from diffStory_created [OF this assms(4)] show ?thesis .
qed

lemma updateFeed_created:
  assumes "\<forall>s \<in> set stories. Story.Parent s = Url feed"
    and "storyTbl st k = Some s0" and "\<not> IsZero (Created s0)"
  shows "\<exists>s1. storyTbl (r_store (updateFeed env st url feed stories ua fs ul)) k = Some s1 \<and>
           Created s1 = Created s0"
proof -
  let ?us = "updateStories st (Url feed) stories ua"
  from updateFeed_storyTbl [of env st url feed stories ua fs ul]
  show ?thesis
  proof
    assume "storyTbl (r_store (updateFeed env st url feed stories ua fs ul)) = storyTbl st"
    with assms(2) show ?thesis by simp
  next
    assume "\<exists>f stc. storyTbl stc = storyTbl st \<and>
      r_store (updateFeed env st url feed stories ua fs ul) =
        fst (PutMulti env (EFeed f # map EStory ?us) stc)"
    then obtain f stc where t: "storyTbl stc = storyTbl st"
      and r: "r_store (updateFeed env st url feed stories ua fs ul) =
        fst (PutMulti env (EFeed f # map EStory ?us) stc)"
      by blast
    have a: "Created s = Created s0"
      if "EStory s \<in> set (EFeed f # map EStory ?us)" "(Story.Parent s, Story.Id s) = k" for s
    proof -
      from that(1) have "s \<in> set ?us" by auto
      moreover from that(2) assms(2) have "storyTbl st (Story.Parent s, Story.Id s) = Some s0"
        by simp
      ultimately show ?thesis by (rule updateStories_created [OF _ assms(1) _ assms(3)])
    qed
    have b: "storyTbl stc k = Some s0" using t assms(2) by simp
    have "\<exists>s2. storyTbl (fst (PutMulti env (EFeed f # map EStory ?us) stc)) k = Some s2 \<and>
            Created s2 = Created s0"
    proof (rule PutMulti_created)
      show "storyTbl stc k = Some s0" by (fact b)
      show "Created s0 = Created s0" ..
      fix s assume "EStory s \<in> set (EFeed f # map EStory ?us)"
        "(Story.Parent s, Story.Id s) = k"
      then show "Created s = Created s0" by (rule a)
    qed
    with r show ?thesis by (simp del: PutMulti.simps)
  qed
qed


lemma reconcileAll_created:
  assumes "\<forall>c \<in> set calls. \<forall>s \<in> set (c_stories c). Story.Parent s = Url (c_feed c)"
    and "storyTbl st k = Some s0" and "\<not> IsZero (Created s0)"
  shows "\<exists>s1. storyTbl (reconcileAll calls st) k = Some s1 \<and> Created s1 = Created s0"
  using assms
proof (induction calls arbitrary: st s0)
  case Nil
  then show ?case by (simp add: reconcileAll_def)
next
  case (Cons c calls)
  from Cons.prems(1) have wf: "\<forall>s \<in> set (c_stories c). Story.Parent s = Url (c_feed c)"
    by simp
  from updateFeed_created [OF wf Cons.prems(2,3)]
  obtain s1 where s1: "storyTbl (r_store (reconcile c st)) k = Some s1"
    "Created s1 = Created s0"
    unfolding reconcile_def by blast
  from s1(2) Cons.prems(3) have nz: "\<not> IsZero (Created s1)" by simp
  have "\<exists>s2. storyTbl (reconcileAll calls (r_store (reconcile c st))) k = Some s2 \<and>
          Created s2 = Created s1"
    by (rule Cons.IH [OF _ s1(1) nz]) (use Cons.prems(1) in simp)
  with s1(2) show ?case by (simp add: reconcileAll_def)
qed

text \<open>
  Claim C3. A story is stored under the key \<open>k\<close> with a non-zero created time. After any
  sequence of reconciliations, the next one submits under \<open>k\<close> only records with that
  created time, whatever their update times and whether or not \<^verbatim>\<open>updateAll\<close> is set, and
  it leaves under \<open>k\<close> a record with that created time. The incoming stories are parented
  to the feed of their document, as the parser makes them.
\<close>

theorem created_never_changes:
  assumes "\<forall>c \<in> set (calls @ [c]). \<forall>s \<in> set (c_stories c). Story.Parent s = Url (c_feed c)"
    and "storyTbl st k = Some s0" and "\<not> IsZero (Created s0)"
    and "r = reconcile c (reconcileAll calls st)"
  shows "(\<forall>s \<in> set (storyWrites (r_puts r)).
            (Story.Parent s, Story.Id s) = k \<longrightarrow> Created s = Created s0) \<and>
         (\<exists>s1. storyTbl (r_store r) k = Some s1 \<and> Created s1 = Created s0)"
proof -
  from assms(1) have wfs: "\<forall>c \<in> set calls. \<forall>s \<in> set (c_stories c). Story.Parent s = Url (c_feed c)"
    and wf: "\<forall>s \<in> set (c_stories c). Story.Parent s = Url (c_feed c)"
    by simp_all
  from reconcileAll_created [OF wfs assms(2,3)]
  obtain s1 where s1: "storyTbl (reconcileAll calls st) k = Some s1" "Created s1 = Created s0"
    by blast
  from s1(2) assms(3) have nz: "\<not> IsZero (Created s1)" by simp
  have a: "\<forall>s \<in> set (storyWrites (r_puts r)).
            (Story.Parent s, Story.Id s) = k \<longrightarrow> Created s = Created s0"
  proof (intro ballI impI)
    fix s assume s: "s \<in> set (storyWrites (r_puts r))" and k: "(Story.Parent s, Story.Id s) = k"
    from s have "s \<in> set (updateStories (reconcileAll calls st) (Url (c_feed c)) (c_stories c)
                    (c_updateAll c))"
      using updateFeed_storyWrites unfolding assms(4) reconcile_def by blast
    moreover from k s1(1) have "storyTbl (reconcileAll calls st) (Story.Parent s, Story.Id s) = Some s1"
      by simp
    ultimately have "Created s = Created s1"
      by (rule updateStories_created [OF _ wf _ nz])
    with s1(2) show "Created s = Created s0" by simp
  qed
  from updateFeed_created [OF wf s1(1) nz] s1(2)
  have "\<exists>s2. storyTbl (r_store r) k = Some s2 \<and> Created s2 = Created s0"
    unfolding assms(4) reconcile_def by simp
  with a show ?thesis by blast
qed

theorem created_never_changes_witness:
  "storyTbl ex_store2 (ex_url, ''A'') = Some ex_storedA \<and> Created ex_storedA = 500 * Hour \<and>
   Created ex_storyA = 1000 * Hour \<and>
   storyWrites (r_puts (reconcile (ex_call\<lparr>c_updateAll := True\<rparr>) (reconcileAll [ex_call] ex_store2)))
     = [ex_storyA\<lparr>Created := 500 * Hour, Published := 500 * Hour\<rparr>] \<and>
   map_option Created
     (storyTbl (r_store (reconcile (ex_call\<lparr>c_updateAll := True\<rparr>)
        (reconcileAll [ex_call] ex_store2))) (ex_url, ''A'')) = Some (500 * Hour)"
proof -
  let ?c = "ex_call\<lparr>c_updateAll := True\<rparr>"
  have wf: "\<forall>c \<in> set ([ex_call] @ [?c]). \<forall>s \<in> set (c_stories c). Story.Parent s = Url (c_feed c)"
    by (simp add: ex_defs)
  have a: "storyTbl ex_store2 (ex_url, ''A'') = Some ex_storedA" by (simp add: ex_defs)
  have b: "\<not> IsZero (Created ex_storedA)" by (simp add: ex_defs IsZero_def Hour_def)
  have c: "Created ex_storedA = 500 * Hour" "Created ex_storyA = 1000 * Hour"
    by (simp_all add: ex_defs)
  have w: "storyWrites (r_puts (reconcile ?c (reconcileAll [ex_call] ex_store2)))
     = [ex_storyA\<lparr>Created := 500 * Hour, Published := 500 * Hour\<rparr>]"
    by (simp add: reconcile_def reconcileAll_def run_defs ex_defs Hour_def)
  from created_never_changes [OF wf a b refl] c
  have "\<exists>s1. storyTbl (r_store (reconcile ?c (reconcileAll [ex_call] ex_store2))) (ex_url, ''A'')
           = Some s1 \<and> Created s1 = 500 * Hour"
    by simp
  with a c w show ?thesis by auto
qed


section \<open>Lemmas on a second reconciliation\<close>

lemma fold_story_notin:
  "k \<notin> (\<lambda>s. (Story.Parent s, Story.Id s)) ` set us \<Longrightarrow>
     storyTbl (fold store_put (map EStory us) st) k = storyTbl st k"
  by (induction us arbitrary: st) auto

lemma fold_story_in:
  "distinct (map (\<lambda>s. (Story.Parent s, Story.Id s)) us) \<Longrightarrow> s \<in> set us \<Longrightarrow>
     storyTbl (fold store_put (map EStory us) st) (Story.Parent s, Story.Id s) = Some s"
proof (induction us arbitrary: st)
  case Nil
  then show ?case by simp
next
  case (Cons a us)
  show ?case
  proof (cases "s = a")
    case True
    from Cons.prems(1) have "(Story.Parent a, Story.Id a) \<notin> (\<lambda>s. (Story.Parent s, Story.Id s)) ` set us"
      by simp
    from fold_story_notin [OF this] True show ?thesis by simp
  next
    case False
    with Cons.prems have "s \<in> set us" "distinct (map (\<lambda>s. (Story.Parent s, Story.Id s)) us)"
      by simp_all
    from Cons.IH [OF this(2,1)] show ?thesis by simp
  qed
qed

lemma updateStories_Cons:
  "updateStories st fk (s # ss) ua =
     diffStory ua s (storyTbl st (fk, Story.Id s)) @ updateStories st fk ss ua"
  by (simp add: updateStories_def)

lemma diffStory_shape:
  "diffStory ua s prior = [] \<or> (\<exists>s'. diffStory ua s prior = [s'])"
  by (simp add: diffStory_def Let_def split: option.splits)

lemma updateStories_ids:
  "s' \<in> set (updateStories st fk stories ua) \<Longrightarrow> Story.Id s' \<in> Story.Id ` set stories"
  by (auto elim!: updateStories_origin dest: diffStory_same)

lemma updateStories_distinct:
  "distinct (map Story.Id stories) \<Longrightarrow>
     distinct (map Story.Id (updateStories st fk stories ua))"
proof (induction stories)
  case Nil
  then show ?case by (simp add: updateStories_def)
next
  case (Cons s ss)
  from Cons.prems have n: "Story.Id s \<notin> Story.Id ` set ss" and d: "distinct (map Story.Id ss)"
    by simp_all
  have h: "Story.Id s \<notin> Story.Id ` set (updateStories st fk ss ua)"
  proof
    assume "Story.Id s \<in> Story.Id ` set (updateStories st fk ss ua)"
    then obtain s' where m: "s' \<in> set (updateStories st fk ss ua)" and e: "Story.Id s = Story.Id s'"
      by (rule imageE)
    from updateStories_ids [OF m] e n show False by simp
  qed
  from diffStory_shape [of ua s "storyTbl st (fk, Story.Id s)"] show ?case
  proof
    assume "diffStory ua s (storyTbl st (fk, Story.Id s)) = []"
    with Cons.IH [OF d] show ?thesis by (simp add: updateStories_Cons)
  next
    assume "\<exists>s'. diffStory ua s (storyTbl st (fk, Story.Id s)) = [s']"
    then obtain s' where s': "diffStory ua s (storyTbl st (fk, Story.Id s)) = [s']" by blast
    then have "Story.Id s' = Story.Id s"
      using diffStory_same [of s' ua s "storyTbl st (fk, Story.Id s)"] by simp
    with Cons.IH [OF d] s' h show ?thesis by (simp add: updateStories_Cons)
  qed
qed

lemma updateStories_keys_distinct:
  assumes "distinct (map Story.Id stories)"
  shows "distinct (map (\<lambda>s. (Story.Parent s, Story.Id s)) (updateStories st fk stories ua))"
proof -
  from updateStories_distinct [OF assms]
  have "distinct (updateStories st fk stories ua)"
    "inj_on Story.Id (set (updateStories st fk stories ua))"
    by (simp_all add: distinct_map)
  then show ?thesis by (auto simp add: distinct_map inj_on_def)
qed

text \<open>
  After a batch that was written whole, every incoming story finds a stored record whose
  update time it does not contradict.
\<close>

lemma rerun_story:
  assumes d: "distinct (map Story.Id stories)"
    and p: "\<forall>s \<in> set stories. Story.Parent s = fk"
    and st1: "storyTbl st1 = storyTbl (fold store_put (map EStory (updateStories st fk stories ua)) st)"
    and s: "s \<in> set stories"
  shows "diffStory False s (storyTbl st1 (fk, Story.Id s)) = []"
proof -
  let ?us = "updateStories st fk stories ua"
  let ?prior = "storyTbl st (fk, Story.Id s)"
  from s have sub: "set (diffStory ua s ?prior) \<subseteq> set ?us" by (auto simp add: updateStories_def)
  from diffStory_shape [of ua s ?prior] show ?thesis
  proof
    assume e: "diffStory ua s ?prior = []"
    have "(fk, Story.Id s) \<notin> (\<lambda>s. (Story.Parent s, Story.Id s)) ` set ?us"
    proof
      assume "(fk, Story.Id s) \<in> (\<lambda>s. (Story.Parent s, Story.Id s)) ` set ?us"
      then obtain s' where s': "s' \<in> set ?us" "Story.Id s' = Story.Id s" by auto
      from s'(1) obtain s2 where s2: "s2 \<in> set stories"
        "s' \<in> set (diffStory ua s2 (storyTbl st (fk, Story.Id s2)))"
        by (rule updateStories_origin)
      from diffStory_same [OF s2(2)] s'(2) have "Story.Id s2 = Story.Id s" by simp
      with d s s2(1) have "s2 = s" by (meson distinct_map inj_onD)
      with s2(2) e show False by simp
    qed
    from fold_story_notin [OF this] st1 have "storyTbl st1 (fk, Story.Id s) = ?prior" by simp
    with e show ?thesis
      by (auto simp add: diffStory_def Let_def split: option.splits if_splits)
  next
    assume "\<exists>s'. diffStory ua s ?prior = [s']"
    then obtain s' where s': "diffStory ua s ?prior = [s']" by blast
    with sub have i: "s' \<in> set ?us" by simp
    from s' have same: "Story.Id s' = Story.Id s" "Story.Parent s' = Story.Parent s"
      "Story.Updated s' = Story.Updated s"
      using diffStory_same [of s' ua s ?prior] by simp_all
    from fold_story_in [OF updateStories_keys_distinct [OF d] i] st1 same p s
    have "storyTbl st1 (fk, Story.Id s) = Some s'" by simp
    with same(3) show ?thesis by (simp add: diffStory_def)
  qed
qed

lemma rerun_nothing:
  assumes "distinct (map Story.Id stories)"
    and "\<forall>s \<in> set stories. Story.Parent s = fk"
    and "storyTbl st1 = storyTbl (fold store_put (map EStory (updateStories st fk stories ua)) st)"
  shows "updateStories st1 fk stories False = []"
proof -
  have "\<forall>s \<in> set stories. diffStory False s (storyTbl st1 (fk, Story.Id s)) = []"
    using rerun_story [OF assms] by blast
  then show ?thesis unfolding updateStories_def by simp
qed


lemma fold_story_cong:
  "storyTbl st = storyTbl st' \<Longrightarrow>
     storyTbl (fold store_put (map EStory us) st) = storyTbl (fold store_put (map EStory us) st')"
  by (induction us arbitrary: st st') simp_all

lemma Put_feed_errors:
  assumes "feedTbl st (Url f) = Some f'" and "Errors f' = Errors f"
  shows "map_option Errors (feedTbl (fst (Put env (EFeed f) st)) u) = map_option Errors (feedTbl st u)"
  using assms by (simp add: Put_def)

text \<open>
  Claim C2, as amended. A first call returns without an error and was not cut short by the
  already-updated test of line 687. A second call with the same parsed feed and stories,
  on the store the first one left and with \<^verbatim>\<open>updateAll\<close> unset, submits no story and
  no story content, and leaves every stored feed's error count as it was. The stories have
  pairwise distinct ids and are parented to the parsed feed.
\<close>

theorem rerun_is_noop:
  assumes "r1 = updateFeed env1 st url feed stories updateAll1 fromSub1 updateLast1"
    and "r_err r1 = None"
    and "Get (get_fails env1) st url = Some f0"
    and "IsZero (Feed.Updated feed) \<or> Feed.Updated f0 \<noteq> Feed.Updated feed \<or> updateAll1 \<or> fromSub1"
    and "distinct (map Story.Id stories)"
    and "\<forall>s \<in> set stories. Story.Parent s = Url feed"
    and "r2 = updateFeed env2 (r_store r1) url feed stories False fromSub2 updateLast2"
  shows "storyWrites (r_puts r2) = [] \<and> contentWrites (r_puts r2) = [] \<and>
         (\<forall>u. map_option Errors (feedTbl (r_store r2) u) =
               map_option Errors (feedTbl (r_store r1) u))"
proof -
  let ?us = "updateStories st (Url feed) stories updateAll1"
  from assms(1,2) obtain f1 stc scs where
    pc: "putContents env1 ?us st = (stc, scs, False)"
    and pm: "PutMulti env1 (EFeed f1 # map EStory ?us) stc = (r_store r1, False)"
    and f1: "Url f1 = Url feed" "Errors f1 = Errors feed"
  proof (cases rule: updateFeed_ok)
    case (short f0')
    with assms(3,4) show ?thesis by simp
  next
    case (full f0' stc scs)
    show ?thesis by (rule that [OF full(3,4)]) simp_all
  qed
  from pm have "snd (PutMulti env1 (EFeed f1 # map EStory ?us) stc) = False"
    "fst (PutMulti env1 (EFeed f1 # map EStory ?us) stc) = r_store r1"
    by simp_all
  with PutMulti_ok [of env1 "EFeed f1 # map EStory ?us" stc]
  have st1: "r_store r1 = fold store_put (map EStory ?us) (store_put (EFeed f1) stc)"
    by simp
  have "storyTbl (store_put (EFeed f1) stc) = storyTbl st"
    using putContents_tbls [OF pc] by simp
  from fold_story_cong [OF this]
  have "storyTbl (r_store r1) = storyTbl (fold store_put (map EStory ?us) st)"
    unfolding st1 .
  from rerun_nothing [OF assms(5,6) this]
  have none: "updateStories (r_store r1) (Url feed) stories False = []" .
  have "feedTbl (r_store r1) = feedTbl (store_put (EFeed f1) stc)"
    using PutMulti_stories_feedTbl [of env1 ?us "store_put (EFeed f1) stc"] pm
    by (simp add: Put_def split: if_splits prod.splits)
  with f1 have stored: "feedTbl (r_store r1) (Url feed) = Some f1" by simp
  show ?thesis
  proof (cases rule: updateFeed_cases' [of env2 "r_store r1" url feed stories False fromSub2 updateLast2])
    case same
    then show ?thesis unfolding assms(7) by simp
  next
    case (short f)
    from Put_feed_errors [of "r_store r1" f f1 env2] stored f1 short(3,4)
    have "\<forall>u. map_option Errors (feedTbl (fst (Put env2 (EFeed f) (r_store r1))) u) =
               map_option Errors (feedTbl (r_store r1) u)"
      by simp
    with short(1,2) show ?thesis unfolding assms(7) by simp
  next
    case (content stc scs)
    from content(1) none show ?thesis by simp
  next
    case (batch f stc2 scs2)
    from batch(1) none have e: "stc2 = r_store r1" "scs2 = []" by simp_all
    from Put_feed_errors [of "r_store r1" f f1 env2] stored f1 batch(4,5)
    have "\<forall>u. map_option Errors (feedTbl (fst (Put env2 (EFeed f) (r_store r1))) u) =
               map_option Errors (feedTbl (r_store r1) u)"
      by simp
    with batch(2,3) e none show ?thesis unfolding assms(7) by (simp split: prod.splits)
  qed
qed

theorem rerun_is_noop_witness:
  "r_err (updateFeed ex_env ex_store2 ex_url ex_parsed [ex_storyA] False False False) = None \<and>
   Get (get_fails ex_env) ex_store2 ex_url = Some ex_stored \<and>
   Feed.Updated ex_stored \<noteq> Feed.Updated ex_parsed \<and>
   distinct (map Story.Id [ex_storyA]) \<and> Story.Parent ex_storyA = Url ex_parsed \<and>
   storyWrites (r_puts (updateFeed ex_env ex_store2 ex_url ex_parsed [ex_storyA] False False False))
     = [ex_storyA\<lparr>Created := 500 * Hour, Published := 500 * Hour\<rparr>] \<and>
   storyWrites (r_puts (updateFeed ex_env
      (r_store (updateFeed ex_env ex_store2 ex_url ex_parsed [ex_storyA] False False False))
      ex_url ex_parsed [ex_storyA] False False False)) = [] \<and>
   contentWrites (r_puts (updateFeed ex_env
      (r_store (updateFeed ex_env ex_store2 ex_url ex_parsed [ex_storyA] False False False))
      ex_url ex_parsed [ex_storyA] False False False)) = [] \<and>
   map_option Errors (feedTbl (r_store (updateFeed ex_env
      (r_store (updateFeed ex_env ex_store2 ex_url ex_parsed [ex_storyA] False False False))
      ex_url ex_parsed [ex_storyA] False False False)) ex_url) =
   map_option Errors (feedTbl
      (r_store (updateFeed ex_env ex_store2 ex_url ex_parsed [ex_storyA] False False False))
      ex_url)"
proof -
  let ?r1 = "updateFeed ex_env ex_store2 ex_url ex_parsed [ex_storyA] False False False"
  have a: "r_err ?r1 = None" by (simp add: run_defs ex_defs)
  have b: "Get (get_fails ex_env) ex_store2 ex_url = Some ex_stored"
    by (simp add: Get_def ex_defs)
  have c: "Feed.Updated ex_stored \<noteq> Feed.Updated ex_parsed" by (simp add: ex_defs Hour_def)
  then have c': "IsZero (Feed.Updated ex_parsed) \<or> Feed.Updated ex_stored \<noteq> Feed.Updated ex_parsed
      \<or> False \<or> False"
    by simp
  have d: "distinct (map Story.Id [ex_storyA])" by simp
  have e: "Story.Parent ex_storyA = Url ex_parsed" by (simp add: ex_defs)
  then have e': "\<forall>s \<in> set [ex_storyA]. Story.Parent s = Url ex_parsed" by simp
  have w: "storyWrites (r_puts ?r1) = [ex_storyA\<lparr>Created := 500 * Hour, Published := 500 * Hour\<rparr>]"
    by (simp add: run_defs ex_defs Hour_def)
  from rerun_is_noop [OF refl a b c' d e' refl, of ex_env False False] a b c d e w
  show ?thesis by simp
qed

text \<open>
  Claim C2 as stated fails, in three ways. A first poll that is cut short at line 687
  writes no story and stores the current time as the feed's update time, so the second
  poll of the same document goes through the diff and writes story \<open>A\<close>. A second call
  with \<^verbatim>\<open>updateAll\<close> set writes story \<open>A\<close> again. With two incoming stories of the same
  id and different update times, the second one is stored last, and a second call (a push
  of the same document) writes the first one again.
\<close>

theorem rerun_writes_again:
  "r_err (updateFeed ex_env ex_store ex_url ex_unchanged [ex_storyA] False False False) = None \<and>
   storyWrites (r_puts (updateFeed ex_env ex_store ex_url ex_unchanged [ex_storyA]
      False False False)) = [] \<and>
   storyWrites (r_puts (updateFeed ex_env
      (r_store (updateFeed ex_env ex_store ex_url ex_unchanged [ex_storyA] False False False))
      ex_url ex_unchanged [ex_storyA] False False False)) = [ex_storyA] \<and>
   r_err (updateFeed ex_env ex_store ex_url ex_parsed [ex_storyA] False False False) = None \<and>
   storyWrites (r_puts (updateFeed ex_env
      (r_store (updateFeed ex_env ex_store ex_url ex_parsed [ex_storyA] False False False))
      ex_url ex_parsed [ex_storyA] True False False)) = [ex_storyA] \<and>
   r_err (updateFeed ex_env ex_store ex_url ex_parsed
      [ex_storyA, ex_storyA\<lparr>Story.Updated := 941 * Hour\<rparr>] False False False) = None \<and>
   storyWrites (r_puts (updateFeed ex_env
      (r_store (updateFeed ex_env ex_store ex_url ex_parsed
         [ex_storyA, ex_storyA\<lparr>Story.Updated := 941 * Hour\<rparr>] False False False))
      ex_url ex_parsed [ex_storyA, ex_storyA\<lparr>Story.Updated := 941 * Hour\<rparr>]
      False True False)) = [ex_storyA]"
  by (simp add: run_defs ex_defs Hour_def)


section \<open>Fetching: the claim\<close>

lemma readLimited_over:
  "sz \<le> length (Body resp) \<Longrightarrow> readLimited sz resp = Inr (take sz (Body resp), 0)"
  by (simp add: readLimited_def)

lemma readLimited_data:
  "readLimited n resp = Inr (b, N) \<Longrightarrow> N \<noteq> 0 \<Longrightarrow> b = Body resp \<and> length (Body resp) < n"
  by (auto simp add: readLimited_def split: if_splits)

text \<open>Whatever \<^verbatim>\<open>fetchFeed\<close> returns as feed data was parsed from a whole body.\<close>

lemma fetchFeed_data:
  assumes "fetchFeed fe origUrl fetchUrl = Some r"
  shows "\<forall>d. r = Inr d \<longrightarrow>
           (\<exists>resp o' f'. http_Get fe f' = Some resp \<and> StatusCode resp = 200 \<and>
              length (Body resp) < sz \<and>
              ParseFeed fe (ContentType resp) o' f' (Body resp) = Inr d)"
proof (rule fetchFeed.raw_induct [OF _ assms], goal_cases)
  case (1 fetchFeed' fe origUrl fetchUrl r)
  show ?case
  proof (intro allI impI)
    fix d assume d: "r = Inr d"
    from 1(2) d obtain u o' f' where t: "fetchTarget fe origUrl fetchUrl = Inr (u, o', f')"
      by (auto split: sum.splits)
    from 1(2) d t obtain resp where g: "http_Get fe f' = Some resp"
      by (auto split: option.splits)
    from 1(2) d t g have s: "StatusCode resp = 200"
      by (auto split: if_splits)
    from 1(2) d t g s obtain b N where rl: "readLimited sz resp = Inr (b, N)"
      by (auto split: sum.splits)
    from 1(2) d t g s rl have n: "N \<noteq> 0"
      by (auto split: if_splits)
    from readLimited_data [OF rl n] have b: "b = Body resp" "length (Body resp) < sz"
      by simp_all
    let ?parse = "ParseFeed fe (ContentType resp) o' f' (Body resp)"
    from 1(2) t g s rl n b
    have "r = ?parse \<or>
          (\<exists>autoUrl. fetchFeed' fe o' autoUrl = Some r)"
      by (auto simp add: Let_def split: option.splits if_splits)
    then show "\<exists>resp o' f'. http_Get fe f' = Some resp \<and> StatusCode resp = 200 \<and>
              length (Body resp) < sz \<and>
              ParseFeed fe (ContentType resp) o' f' (Body resp) = Inr d"
    proof
      assume "r = ?parse"
      with d g s b show ?thesis by metis
    next
      assume "\<exists>autoUrl. fetchFeed' fe o' autoUrl = Some r"
      then obtain autoUrl where "fetchFeed' fe o' autoUrl = Some r" by blast
      from 1(1) [OF this] d show ?thesis by blast
    qed
  qed
qed

text \<open>
  Claim C9. The request that \<^verbatim>\<open>fetchFeed\<close> sends, after the checks of lines 596 to
  615, is answered with a body longer than \<open>sz\<close>, two mebibytes. Then \<^verbatim>\<open>fetchFeed\<close>
  returns an error, whatever the parser and the autodiscovery would do with the bytes: the
  size error when the status is 200, the status error otherwise. The call on a discovered
  link is a call of \<^verbatim>\<open>fetchFeed\<close> like any other, so this holds of it too. And whenever
  \<^verbatim>\<open>fetchFeed\<close> returns feed data, the data was parsed from the whole body of a response
  shorter than \<open>sz\<close>, never from a truncated one.
\<close>

theorem fetch_oversized_is_error:
  "(fetchTarget fe origUrl fetchUrl = Inr (u, origUrl', fetchUrl') \<and>
    http_Get fe fetchUrl' = Some resp \<and> sz < length (Body resp) \<longrightarrow>
      fetchFeed fe origUrl fetchUrl =
        Some (Inl (if StatusCode resp = 200 then FeedTooLarge sz else BadResponseCode))) \<and>
   (fetchFeed fe origUrl fetchUrl = Some (Inr d) \<longrightarrow>
      (\<exists>resp o' f'. http_Get fe f' = Some resp \<and> StatusCode resp = 200 \<and>
         length (Body resp) < sz \<and>
         ParseFeed fe (ContentType resp) o' f' (Body resp) = Inr d))"
proof (intro conjI impI)
  assume a: "fetchTarget fe origUrl fetchUrl = Inr (u, origUrl', fetchUrl') \<and>
    http_Get fe fetchUrl' = Some resp \<and> sz < length (Body resp)"
  then have "readLimited sz resp = Inr (take sz (Body resp), 0)"
    by (simp add: readLimited_over)
  with a show "fetchFeed fe origUrl fetchUrl =
        Some (Inl (if StatusCode resp = 200 then FeedTooLarge sz else BadResponseCode))"
    by (subst fetchFeed.simps) simp
next
  assume "fetchFeed fe origUrl fetchUrl = Some (Inr d)"
  from fetchFeed_data [OF this] show "\<exists>resp o' f'. http_Get fe f' = Some resp \<and>
      StatusCode resp = 200 \<and> length (Body resp) < sz \<and>
      ParseFeed fe (ContentType resp) o' f' (Body resp) = Inr d"
    by simp
qed

lemma ex_target:
  "fetchTarget (ex_fetch\<lparr>http_Get := g, ParseFeed := p\<rparr>) ex_url ex_url =
     Inr (\<lparr>Scheme = ''http'', Host = ''a'', Path = ''/feed'', Rest = []\<rparr>, ex_url, ex_url)"
  "fetchTarget (ex_fetch\<lparr>http_Get := g\<rparr>) ex_url ex_url =
     Inr (\<lparr>Scheme = ''http'', Host = ''a'', Path = ''/feed'', Rest = []\<rparr>, ex_url, ex_url)"
  by (simp_all add: fetchTarget_def ex_fetch_def ex_url_def HasSuffix_def clURL_def)

lemma ex_fetch_ok_result:
  "fetchFeed ex_fetch_ok ex_url ex_url = Some (Inr (ex_parsed, [ex_storyA]))"
  unfolding ex_fetch_ok_def
  by (subst fetchFeed.simps)
     (simp add: ex_target, simp add: ex_fetch_def readLimited_def sz_def)

theorem fetch_oversized_is_error_witness:
  "fetchTarget ex_fetch_big ex_url ex_url =
     Inr (\<lparr>Scheme = ''http'', Host = ''a'', Path = ''/feed'', Rest = []\<rparr>, ex_url, ex_url) \<and>
   http_Get ex_fetch_big ex_url = Some \<lparr>StatusCode = 200, ContentType = ''text/xml'',
     Body = replicate (Suc sz) (CHR ''x''), read_fails = False\<rparr> \<and>
   sz < length (replicate (Suc sz) (CHR ''x'')) \<and>
   fetchFeed ex_fetch_big ex_url ex_url = Some (Inl (FeedTooLarge sz)) \<and>
   fetchFeed ex_fetch_ok ex_url ex_url = Some (Inr (ex_parsed, [ex_storyA])) \<and>
   (\<exists>resp o' f'. http_Get ex_fetch_ok f' = Some resp \<and> StatusCode resp = 200 \<and>
      length (Body resp) < sz \<and>
      ParseFeed ex_fetch_ok (ContentType resp) o' f' (Body resp) = Inr (ex_parsed, [ex_storyA]))"
proof -
  let ?resp = "\<lparr>StatusCode = 200, ContentType = ''text/xml'',
     Body = replicate (Suc sz) (CHR ''x''), read_fails = False\<rparr>"
  let ?u = "\<lparr>Scheme = ''http'', Host = ''a'', Path = ''/feed'', Rest = []\<rparr>"
  have t: "fetchTarget ex_fetch_big ex_url ex_url = Inr (?u, ex_url, ex_url)"
    unfolding ex_fetch_big_def by (rule ex_target)
  have g: "http_Get ex_fetch_big ex_url = Some ?resp" by (simp add: ex_fetch_big_def)
  have l: "sz < length (replicate (Suc sz) (CHR ''x''))" by simp
  from fetch_oversized_is_error [of ex_fetch_big ex_url ex_url ?u ex_url ex_url ?resp] t g l
  have big: "fetchFeed ex_fetch_big ex_url ex_url = Some (Inl (FeedTooLarge sz))"
    by simp
  from fetch_oversized_is_error [of ex_fetch_ok ex_url ex_url _ _ _ _ "(ex_parsed, [ex_storyA])"]
    ex_fetch_ok_result
  have ok: "\<exists>resp o' f'. http_Get ex_fetch_ok f' = Some resp \<and> StatusCode resp = 200 \<and>
      length (Body resp) < sz \<and>
      ParseFeed ex_fetch_ok (ContentType resp) o' f' (Body resp) = Inr (ex_parsed, [ex_storyA])"
    by blast
  from t g l big ok ex_fetch_ok_result show ?thesis by blast
qed


section \<open>The subscription list: the claims\<close>





lemmas ex_tree_defs = ex_tree_def ex_leafA_def ex_leafB_def ex_leafC_def ex_codec_def ex_user_def


lemma appendToFolder_none:
  "\<forall>ol \<in> set os. \<not> (Title ol = label \<and> XmlUrl ol = []) \<Longrightarrow> appendToFolder label x os = None"
  by (induction os) auto

lemma appendToFolder_last:
  "\<forall>ol \<in> set os. \<not> (Title ol = label \<and> XmlUrl ol = []) \<Longrightarrow>
     appendToFolder label x (os @ [OpmlOutline cs label [] t h]) =
       Some (os @ [OpmlOutline (cs @ [x]) label [] t h])"
  by (induction os) auto

lemma mergeOutlines_one_label:
  assumes "\<forall>w \<in> set outlines. XmlUrl w = [] \<and> Title w = label"
  shows "mergeOutlines outlines s =
           fold (mergeOutline label) (concat (map OpmlOutline.Outline outlines)) s"
  using assms
proof (induction outlines arbitrary: s)
  case Nil
  then show ?case by (simp add: mergeOutlines_def)
next
  case (Cons w outlines)
  from Cons.prems have w: "XmlUrl w = []" "Title w = label"
    and t: "\<forall>w \<in> set outlines. XmlUrl w = [] \<and> Title w = label"
    by simp_all
  from Cons.IH [OF t, of "fold (mergeOutline label) (OpmlOutline.Outline w) s"] w
  show ?case by (simp add: mergeOutlines_def)
qed

text \<open>
  Claim C8, as amended. The merge input is outlines without a URL that all carry the same
  non-empty label and whose children are, in order, the two leaves \<open>a\<close> and \<open>b\<close>: one
  outline with both, or one outline for each, as the import task builds them. Neither URL
  is in the URL set of the current tree, the two URLs differ, and the current tree has no
  top-level folder with the label. Then the merged tree is the current tree followed by
  one folder with the label that holds \<open>a\<close> and \<open>b\<close>, and this is its only top-level
  folder with the label.
\<close>

theorem merge_same_new_label:
  assumes "label \<noteq> []"
    and "\<forall>w \<in> set outlines. XmlUrl w = [] \<and> Title w = label"
    and "concat (map OpmlOutline.Outline outlines) = [a, b]"
    and "XmlUrl a \<notin> treeUrls (Opml.Outline fs)" and "XmlUrl b \<notin> treeUrls (Opml.Outline fs)"
    and "XmlUrl a \<noteq> XmlUrl b"
    and "\<forall>ol \<in> set (Opml.Outline fs). \<not> (Title ol = label \<and> XmlUrl ol = [])"
  shows "Opml.Outline (mergeTree fs outlines) =
           Opml.Outline fs @ [OpmlOutline [a, b] label [] [] []] \<and>
         filter (\<lambda>ol. Title ol = label \<and> XmlUrl ol = []) (Opml.Outline (mergeTree fs outlines)) =
           [OpmlOutline [a, b] label [] [] []]"
proof -
  let ?U = "treeUrls (Opml.Outline fs)" and ?os = "Opml.Outline fs"
  have 1: "mergeOutline label a (?U, ?os) =
             (insert (XmlUrl a) ?U, ?os @ [OpmlOutline [a] label [] [] []])"
    using assms(1,4) appendToFolder_none [OF assms(7)] by (simp add: mergeOutline_def)
  have 2: "mergeOutline label b (insert (XmlUrl a) ?U, ?os @ [OpmlOutline [a] label [] [] []]) =
             (insert (XmlUrl b) (insert (XmlUrl a) ?U), ?os @ [OpmlOutline [a, b] label [] [] []])"
    using assms(1,5,6) appendToFolder_last [OF assms(7), of b "[a]" "[]" "[]"]
    by (simp add: mergeOutline_def)
  have "mergeOutlines outlines (?U, ?os) =
          (insert (XmlUrl b) (insert (XmlUrl a) ?U), ?os @ [OpmlOutline [a, b] label [] [] []])"
    unfolding mergeOutlines_one_label [OF assms(2)] assms(3) using 1 2 by simp
  then have r: "Opml.Outline (mergeTree fs outlines) = ?os @ [OpmlOutline [a, b] label [] [] []]"
    by (simp add: mergeTree_def)
  have "filter (\<lambda>ol. Title ol = label \<and> XmlUrl ol = []) ?os = []"
    using assms(7) by (simp add: filter_empty_conv)
  with r show ?thesis by simp
qed

theorem merge_same_new_label_witness:
  "''Tech'' \<noteq> [] \<and> XmlUrl ex_leafC \<notin> treeUrls (Opml.Outline ex_tree) \<and>
   XmlUrl (OpmlOutline [] ''Feed D'' ''http://d/feed'' [] []) \<notin> treeUrls (Opml.Outline ex_tree) \<and>
   XmlUrl ex_leafC \<noteq> XmlUrl (OpmlOutline [] ''Feed D'' ''http://d/feed'' [] []) \<and>
   Opml.Outline (mergeTree ex_tree
      [OpmlOutline [ex_leafC] ''Tech'' [] [] [],
       OpmlOutline [OpmlOutline [] ''Feed D'' ''http://d/feed'' [] []] ''Tech'' [] [] []]) =
     Opml.Outline ex_tree @
       [OpmlOutline [ex_leafC, OpmlOutline [] ''Feed D'' ''http://d/feed'' [] []] ''Tech'' [] [] []] \<and>
   filter (\<lambda>ol. Title ol = ''Tech'' \<and> XmlUrl ol = []) (Opml.Outline (mergeTree ex_tree
      [OpmlOutline [ex_leafC] ''Tech'' [] [] [],
       OpmlOutline [OpmlOutline [] ''Feed D'' ''http://d/feed'' [] []] ''Tech'' [] [] []])) =
     [OpmlOutline [ex_leafC, OpmlOutline [] ''Feed D'' ''http://d/feed'' [] []] ''Tech'' [] [] []]"
proof -
  let ?d = "OpmlOutline [] ''Feed D'' ''http://d/feed'' [] []"
  let ?outlines = "[OpmlOutline [ex_leafC] ''Tech'' [] [] [], OpmlOutline [?d] ''Tech'' [] [] []]"
  have l: "''Tech'' \<noteq> []" by simp
  have w: "\<forall>w \<in> set ?outlines. XmlUrl w = [] \<and> Title w = ''Tech''" by simp
  have c: "concat (map OpmlOutline.Outline ?outlines) = [ex_leafC, ?d]" by simp
  have a: "XmlUrl ex_leafC \<notin> treeUrls (Opml.Outline ex_tree)"
    and b: "XmlUrl ?d \<notin> treeUrls (Opml.Outline ex_tree)"
    by (simp_all add: ex_tree_defs treeUrls_def)
  have n: "XmlUrl ex_leafC \<noteq> XmlUrl ?d" by (simp add: ex_leafC_def)
  have f: "\<forall>ol \<in> set (Opml.Outline ex_tree). \<not> (Title ol = ''Tech'' \<and> XmlUrl ol = [])"
    by (simp add: ex_tree_defs)
  from merge_same_new_label [OF l w c a b n f] l a b n show ?thesis by blast
qed

text \<open>
  Claim C8 as stated fails when the two leaves have the same URL: the first one enters the
  URL set (line 196), so the second one is skipped (line 193) and the new folder holds
  the first leaf only.
\<close>

theorem merge_same_url_twice:
  "XmlUrl ex_leafC \<notin> treeUrls (Opml.Outline ex_tree) \<and>
   XmlUrl (OpmlOutline [] ''Feed C, again'' ''http://c/feed'' [] []) \<notin>
     treeUrls (Opml.Outline ex_tree) \<and>
   filter (\<lambda>ol. Title ol = ''Tech'' \<and> XmlUrl ol = []) (Opml.Outline ex_tree) = [] \<and>
   Opml.Outline (mergeTree ex_tree
      [OpmlOutline [ex_leafC] ''Tech'' [] [] [],
       OpmlOutline [OpmlOutline [] ''Feed C, again'' ''http://c/feed'' [] []] ''Tech'' [] [] []]) =
     Opml.Outline ex_tree @ [OpmlOutline [ex_leafC] ''Tech'' [] [] []] \<and>
   OpmlOutline [] ''Feed C, again'' ''http://c/feed'' [] [] \<notin> set [ex_leafC]"
  by (simp add: ex_tree_defs treeUrls_def mergeTree_def mergeOutlines_def mergeOutline_def)

end
